theory Spec2Isabelle
  imports Main
begin

section \<open>The calculator's expression normaliser and evaluator (calculator.py)\<close>

text \<open>
  Python strings are modelled as \<open>string\<close>, one \<open>char\<close> per code point, which covers the
  code points 0 to 255. The regular expressions of \<open>preprocess_expression\<close> are compiled
  without flags, so on this range \<^verbatim>\<open>\d\<close> is the ten ASCII digits, \<^verbatim>\<open>[a-z]\<close> the
  ASCII lower-case letters, and \<^verbatim>\<open>\s\<close> (like the characters removed by \<^verbatim>\<open>str.strip()\<close>)
  the code points 9 to 13, 28 to 32, 133 and 160.
\<close>

subsection \<open>Character classes\<close>

definition is_digit :: "char \<Rightarrow> bool" where
  "is_digit c = (c \<in> set ''0123456789'')"

definition is_lower :: "char \<Rightarrow> bool" where
  "is_lower c = (c \<in> set ''abcdefghijklmnopqrstuvwxyz'')"

definition is_space :: "char \<Rightarrow> bool" where
  "is_space c = (c \<in> set [CHR 0x09, CHR 0x0A, CHR 0x0B, CHR 0x0C, CHR 0x0D,
     CHR 0x1C, CHR 0x1D, CHR 0x1E, CHR 0x1F, CHR 0x20, CHR 0x85, CHR 0xA0])"

definition is_lparen :: "char \<Rightarrow> bool" where
  "is_lparen c = (c = CHR ''('')"

definition is_rparen :: "char \<Rightarrow> bool" where
  "is_rparen c = (c = CHR '')'')"


subsection \<open>\<open>str.strip()\<close>\<close>

definition strip :: "string \<Rightarrow> string" where
  "strip s = rev (dropWhile is_space (rev (dropWhile is_space s)))"

subsection \<open>The percent rule: \<^verbatim>\<open>re.sub(r'(\d+(?:\.\d+)?)\s*%', r'(\1/100)', expr)\<close>\<close>

text \<open>
  \<open>match_percent s\<close> is the match of the pattern anchored at the start of \<open>s\<close>: the text
  of group 1 and the text after the match, or \<open>None\<close>. All quantifiers of the pattern are
  greedy, and giving back what a greedy quantifier took never helps here: after a shorter
  digit run the next character is a digit, after a shorter whitespace run it is
  whitespace, and after skipping a fractional part that could be matched it is the dot;
  none of these is what the pattern needs next. So the one candidate is: the longest
  digit run, the fractional part (a dot and the longest non-empty digit run) when there
  is one, the longest whitespace run, and then \<open>%\<close>.
\<close>

text \<open>
  The optional group \<^verbatim>\<open>(?:\.\d+)?\<close> at the start of \<open>r\<close>: the text it matches and
  the text after it.
\<close>

definition match_fraction :: "string \<Rightarrow> string \<times> string" where
  "match_fraction r =
     (case r of
        [] \<Rightarrow> ([], r)
      | c # t \<Rightarrow>
          if c = CHR ''.'' \<and> takeWhile is_digit t \<noteq> []
          then (c # takeWhile is_digit t, dropWhile is_digit t)
          else ([], r))"

definition match_percent :: "string \<Rightarrow> (string \<times> string) option" where
  "match_percent s =
     (let ds = takeWhile is_digit s; r1 = dropWhile is_digit s in
      if ds = [] then None
      else
        let fr = match_fraction r1
        in (case dropWhile is_space (snd fr) of
              [] \<Rightarrow> None
            | c # rest \<Rightarrow> if c = CHR ''%'' then Some (ds @ fst fr, rest) else None))"

text \<open>
  \<open>re.sub\<close> scans from left to right: at each position it tries the pattern; on a match
  it emits the replacement and goes on after the match, otherwise it copies one character
  and goes on at the next position. The pattern never matches the empty string.
\<close>

function sub_percent :: "string \<Rightarrow> string" where
  "sub_percent [] = []"
| "sub_percent (c # cs) =
     (case match_percent (c # cs) of
        None \<Rightarrow> c # sub_percent cs
      | Some m \<Rightarrow> ''('' @ fst m @ ''/100)'' @ sub_percent (snd m))"
  by pat_completeness auto
termination
proof (relation "measure length")
  fix c :: char and cs :: string and m :: "string \<times> string"
  assume m: "match_percent (c # cs) = Some m"
  let ?s = "c # cs"
  let ?r1 = "dropWhile is_digit ?s"
  have a: "length ?r1 \<le> length ?s"
    by (rule length_dropWhile_le)
  have g: "length (snd (match_fraction r)) \<le> length r" for r
    by (cases r) (auto simp: match_fraction_def le_SucI length_dropWhile_le)
  from m obtain x where e: "dropWhile is_space (snd (match_fraction ?r1)) = x # snd m"
    unfolding match_percent_def Let_def
    by (auto split: if_splits list.splits simp del: dropWhile.simps takeWhile.simps)
  have "length (dropWhile is_space (snd (match_fraction ?r1))) \<le> length (snd (match_fraction ?r1))"
    by (rule length_dropWhile_le)
  with e have "length (snd m) < length (snd (match_fraction ?r1))"
    by simp
  with a g [of ?r1] have "length (snd m) < length ?s"
    by linarith
  then show "(snd m, c # cs) \<in> measure length"
    by simp
qed simp_all

subsection \<open>The implicit-multiplication rules\<close>

text \<open>
  The four remaining patterns, \<^verbatim>\<open>(\d)([a-z])\<close>, \<^verbatim>\<open>(\d)\(\<close>, \<^verbatim>\<open>\)(\d)\<close> and
  \<^verbatim>\<open>\)\(\<close>, each match two characters, one from a class \<open>P\<close> and the next from a
  class \<open>Q\<close>, and each replacement writes the two characters back with \<open>*\<close> between
  them. \<open>sub_pair P Q\<close> is that left-to-right, non-overlapping substitution.
\<close>

fun sub_pair :: "(char \<Rightarrow> bool) \<Rightarrow> (char \<Rightarrow> bool) \<Rightarrow> string \<Rightarrow> string" where
  "sub_pair P Q (x # y # rest) =
     (if P x \<and> Q y then x # CHR ''*'' # y # sub_pair P Q rest
      else x # sub_pair P Q (y # rest))"
| "sub_pair P Q s = s"

subsection \<open>\<open>preprocess_expression\<close>\<close>

definition preprocess_expression :: "string \<Rightarrow> string" where
  "preprocess_expression expr =
     (let expr = strip expr;
          expr = sub_percent expr;
          expr = sub_pair is_digit is_lower expr;
          expr = sub_pair is_digit is_lparen expr;
          expr = sub_pair is_rparen is_digit expr;
          expr = sub_pair is_rparen is_lparen expr
      in expr)"

text \<open>The five substitutions of lines 195 to 200 without the leading \<open>strip\<close>.\<close>

definition substitutions :: "string \<Rightarrow> string" where
  "substitutions s =
     sub_pair is_rparen is_lparen
       (sub_pair is_rparen is_digit
          (sub_pair is_digit is_lparen
             (sub_pair is_digit is_lower (sub_percent s))))"

subsection \<open>Predicates on expression text used in the statements\<close>

text \<open>\<open>has_pair P Q s\<close>: somewhere in \<open>s\<close> a character of \<open>P\<close> is directly followed by one of \<open>Q\<close>.\<close>

fun has_pair :: "(char \<Rightarrow> bool) \<Rightarrow> (char \<Rightarrow> bool) \<Rightarrow> string \<Rightarrow> bool" where
  "has_pair P Q (x # y # rest) = ((P x \<and> Q y) \<or> has_pair P Q (y # rest))"
| "has_pair P Q s = False"

text \<open>\<open>starts_percent s\<close>: after any leading whitespace, \<open>s\<close> goes on with \<open>%\<close>.\<close>

definition starts_percent :: "string \<Rightarrow> bool" where
  "starts_percent s =
     (case dropWhile is_space s of [] \<Rightarrow> False | c # rest \<Rightarrow> c = CHR ''%'')"


text \<open>\<open>has_trigger s\<close>: somewhere in \<open>s\<close> a digit is followed by optional whitespace and \<open>%\<close>.\<close>

fun has_trigger :: "string \<Rightarrow> bool" where
  "has_trigger [] = False"
| "has_trigger (c # cs) = ((is_digit c \<and> starts_percent cs) \<or> has_trigger cs)"

text \<open>
  \<open>decimal_literal n\<close>: the shape \<^verbatim>\<open>\d+(?:\.\d+)?\<close>, a non-empty digit sequence,
  optionally followed by one decimal point and a further non-empty digit sequence.
\<close>

definition decimal_literal :: "string \<Rightarrow> bool" where
  "decimal_literal n =
     (let ds = takeWhile is_digit n; r = dropWhile is_digit n
      in ds \<noteq> [] \<and>
         (case r of
            [] \<Rightarrow> True
          | c # fs \<Rightarrow> c = CHR ''.'' \<and> fs \<noteq> [] \<and> list_all is_digit fs))"

text \<open>\<open>trimmed s\<close>: no whitespace at either end.\<close>

definition trimmed :: "string \<Rightarrow> bool" where
  "trimmed s = (case s of [] \<Rightarrow> True | c # cs \<Rightarrow> \<not> is_space c \<and> \<not> is_space (last s))"

subsection \<open>Python values and exceptions seen by \<open>safe_eval\<close>\<close>

text \<open>
  A float is kept by its exact value: \<open>Finite m e\<close> is \<open>m * 2 ^ e\<close> (every finite IEEE
  double is of this form), besides the infinities (\<open>Infinity negative\<close>) and NaN. Only
  \<open>float.is_integer()\<close> and \<open>int(float)\<close> are needed here, and both are exact.
\<close>

datatype pyfloat = Finite int int | Infinity bool | NaN

datatype pyvalue =
    PyInt int
  | PyBool bool
  | PyFloat pyfloat
  | PyOther string \<comment> \<open>any object that is not an instance of int or float, by its repr\<close>

text \<open>
  Exceptions, by the handler of \<open>safe_eval\<close> that catches them, each with \<open>str(e)\<close>.
  \<open>OtherBaseException\<close> stands for those that do not derive from \<open>Exception\<close>.
\<close>

datatype pyexc =
    ZeroDivisionError string
  | SyntaxError string
  | NameError string
  | OtherException string
  | OtherBaseException string

definition is_integer :: "pyfloat \<Rightarrow> bool" where
  "is_integer x =
     (case x of
        Finite m e \<Rightarrow> (if 0 \<le> e then True else m mod 2 ^ nat (- e) = 0)
      | Infinity negative \<Rightarrow> False
      | NaN \<Rightarrow> False)"

text \<open>\<open>int(x)\<close> truncates towards zero and raises on an infinity or NaN.\<close>

definition int_of_float :: "pyfloat \<Rightarrow> pyexc + int" where
  "int_of_float x =
     (case x of
        Finite m e \<Rightarrow>
          Inr (if 0 \<le> e then m * 2 ^ nat e
               else if 0 \<le> m then m div 2 ^ nat (- e)
               else - ((- m) div 2 ^ nat (- e)))
      | Infinity negative \<Rightarrow> Inl (OtherException ''cannot convert float infinity to integer'')
      | NaN \<Rightarrow> Inl (OtherException ''cannot convert float NaN to integer''))"

text \<open>\<open>isinstance(result, (int, float))\<close>; \<open>bool\<close> is a subclass of \<open>int\<close>.\<close>

definition isinstance_int_float :: "pyvalue \<Rightarrow> bool" where
  "isinstance_int_float v =
     (case v of PyInt i \<Rightarrow> True | PyBool b \<Rightarrow> True | PyFloat f \<Rightarrow> True | PyOther r \<Rightarrow> False)"

subsection \<open>The namespace handed to \<open>eval\<close>\<close>

datatype pyobj =
    NoneObject
  | BuiltinFunction string \<comment> \<open>the builtin of that name\<close>
  | MathAttribute string \<comment> \<open>\<open>getattr(math, name)\<close>\<close>

type_synonym namespace = "string \<rightharpoonup> pyobj"

definition startswith :: "string \<Rightarrow> string \<Rightarrow> bool" where
  "startswith s p = (take (length p) s = p)"

text \<open>
  Lines 207 to 219. \<open>dir(math)\<close> is not part of the repository; it is the parameter
  \<open>math_dir\<close>. The loop assigns after the dictionary display, so a name of the math module
  overwrites an entry of the display with the same key.
\<close>

definition safe_dict :: "string list \<Rightarrow> namespace" where
  "safe_dict math_dir =
     (let safe_dict = [''__builtins__'' \<mapsto> NoneObject,
                       ''abs'' \<mapsto> BuiltinFunction ''abs'',
                       ''round'' \<mapsto> BuiltinFunction ''round'',
                       ''pow'' \<mapsto> BuiltinFunction ''pow'',
                       ''min'' \<mapsto> BuiltinFunction ''min'',
                       ''max'' \<mapsto> BuiltinFunction ''max''];
          math_attrs = filter (\<lambda>attr. \<not> startswith attr ''_'') math_dir
      in fold (\<lambda>attr d. d(attr \<mapsto> MathAttribute attr)) math_attrs safe_dict)"

text \<open>
  Name resolution of \<open>eval(source, globals, locals)\<close>: a bare identifier is looked up in
  \<open>locals\<close>, then in \<open>globals\<close>, then in the builtins. The builtins are what \<open>globals\<close> binds
  to the key \<open>__builtins__\<close>; only when \<open>globals\<close> has no such key does \<open>eval\<close> insert the
  interpreter's builtins module, the parameter \<open>builtins_module\<close>. An object that is not
  a mapping or module, such as \<open>None\<close>, provides no name.
\<close>

definition resolve_name :: "namespace \<Rightarrow> namespace \<Rightarrow> namespace \<Rightarrow> string \<Rightarrow> pyobj option" where
  "resolve_name builtins_module globals locals name =
     (case locals name of
        Some v \<Rightarrow> Some v
      | None \<Rightarrow>
          (case globals name of
             Some v \<Rightarrow> Some v
           | None \<Rightarrow>
               (case globals ''__builtins__'' of
                  None \<Rightarrow> builtins_module name
                | Some b \<Rightarrow> None)))"


subsection \<open>\<open>safe_eval\<close>\<close>

text \<open>
  The builtin \<open>eval\<close> is the interpreter, not code of the repository: it is the
  parameter \<open>eval\<close>, which maps the source text and the two namespaces to the value of
  the expression or to the exception it raises.
\<close>

type_synonym evaluator = "string \<Rightarrow> namespace \<Rightarrow> namespace \<Rightarrow> pyexc + pyvalue"

text \<open>Lines 228 to 233, the formatting of the result inside the \<open>try\<close> block.\<close>

definition format_result :: "pyvalue \<Rightarrow> pyexc + (pyvalue option \<times> string option)" where
  "format_result result =
     (if isinstance_int_float result then
        (case result of
           PyFloat f \<Rightarrow>
             if is_integer f then
               (case int_of_float f of
                  Inl e \<Rightarrow> Inl e
                | Inr i \<Rightarrow> Inr (Some (PyInt i), None))
             else Inr (Some result, None)
         | _ \<Rightarrow> Inr (Some result, None))
      else Inr (None, Some ''Result is not a number''))"

text \<open>
  The whole function: \<open>Inr (value, message)\<close> is the returned pair, \<open>Inl e\<close> an exception
  that no handler catches and that reaches the caller.
\<close>

definition safe_eval :: "evaluator \<Rightarrow> string list \<Rightarrow> string \<Rightarrow> pyexc + (pyvalue option \<times> string option)" where
  "safe_eval eval math_dir expr =
     (let globals = safe_dict math_dir;
          processed = preprocess_expression expr;
          body = (case eval processed globals Map.empty of
                    Inl e \<Rightarrow> Inl e
                  | Inr result \<Rightarrow> format_result result)
      in case body of
           Inr r \<Rightarrow> Inr r
         | Inl (ZeroDivisionError msg) \<Rightarrow> Inr (None, Some ''Division by zero'')
         | Inl (SyntaxError msg) \<Rightarrow> Inr (None, Some ''Invalid syntax'')
         | Inl (NameError msg) \<Rightarrow> Inr (None, Some (''Unknown function or variable: '' @ msg))
         | Inl (OtherException msg) \<Rightarrow> Inr (None, Some (''Error: '' @ msg))
         | Inl (OtherBaseException msg) \<Rightarrow> Inl (OtherBaseException msg))"

text \<open>
  What CPython (3.10 and later) raises when the expression names an identifier that
  neither namespace provides and \<open>globals\<close> binds \<open>__builtins__\<close> to \<open>None\<close>, as the
  namespace of \<open>safe_eval\<close> does: the lookup in the builtins subscripts \<open>None\<close>, which is
  a \<open>TypeError\<close>, caught only by the handler for \<open>Exception\<close>.
\<close>

definition none_builtins_error :: pyexc where
  "none_builtins_error =
     OtherException ([CHR 0x27] @ ''NoneType'' @ [CHR 0x27] @ '' object is not subscriptable'')"

text \<open>
  An instance of the parameter \<open>eval\<close> for concrete inputs: the outcomes of CPython 3.11
  for \<open>eval(source, globals, locals)\<close> on the expressions quoted here, for namespaces that
  bind \<open>__builtins__\<close> to \<open>None\<close> as the one of \<open>safe_eval\<close> does. A function name is
  looked up in the namespaces given; any other text is a syntax error here.
\<close>

definition sample_eval :: evaluator where
  "sample_eval source globals locals =
     (if source = ''1/0'' then Inl (ZeroDivisionError ''division by zero'')
      else if source = ''50/100'' \<or> source = ''(50/100)'' then Inr (PyFloat (Finite 1 (- 1)))
      else if source = ''(50/100) * 200'' then Inr (PyFloat (Finite 100 0))
      else if source = ''.5/100'' then Inr (PyFloat (Finite 5764607523034235 (- 60)))
      else if source = ''2>1'' then Inr (PyBool True)
      else if source = ''3*(4)'' then Inr (PyInt 12)
      else if source = ''2*pi'' then
        (case resolve_name Map.empty globals locals ''pi'' of
           None \<Rightarrow> Inl none_builtins_error
         | Some f \<Rightarrow> Inr (PyFloat (Finite 7074237752028440 (- 50))))
      else if source = ''__builtins__'' then Inr (PyOther ''None'')
      else if source = ''sqrt(144)'' then
        (case resolve_name Map.empty globals locals ''sqrt'' of
           None \<Rightarrow> Inl none_builtins_error
         | Some f \<Rightarrow> Inr (PyFloat (Finite 12 0)))
      else if source = ''sin(pi/2)'' then
        (case resolve_name Map.empty globals locals ''sin'' of
           None \<Rightarrow> Inl none_builtins_error
         | Some f \<Rightarrow> Inr (PyFloat (Finite 1 0)))
      else if source = ''foo(1)'' then
        (case resolve_name Map.empty globals locals ''foo'' of
           None \<Rightarrow> Inl none_builtins_error
         | Some f \<Rightarrow> Inr (PyOther ''object''))
      else Inl (SyntaxError ''invalid syntax''))"

text \<open>An excerpt of \<open>dir(math)\<close>, to instantiate the parameter \<open>math_dir\<close>.\<close>

definition sample_math_dir :: "string list" where
  "sample_math_dir =
     [''__doc__'', ''__loader__'', ''__name__'', ''__package__'', ''__spec__'',
      ''cos'', ''e'', ''factorial'', ''log'', ''pi'', ''pow'', ''sin'', ''sqrt'', ''tan'']"

section \<open>The history store (calculator.py, lines 77 to 180)\<close>

record calculation_entry =
  entry_expr :: string
  entry_result :: string
  entry_timestamp :: string

definition to_dict :: "calculation_entry \<Rightarrow> (string \<rightharpoonup> string)" where
  "to_dict entry =
     [''expr'' \<mapsto> entry_expr entry,
      ''result'' \<mapsto> entry_result entry,
      ''timestamp'' \<mapsto> entry_timestamp entry]"

definition MAX_HISTORY :: nat where
  "MAX_HISTORY = 100"

type_synonym histories = "string \<rightharpoonup> (string \<rightharpoonup> string) list"

text \<open>
  The state is the file \<open>histories.json\<close>: absent, present but not loadable (an
  \<open>IOError\<close> or a \<open>JSONDecodeError\<close>), or holding a dictionary from user names to lists
  of entries.
\<close>

datatype json_file = Missing | Unreadable | Contents histories

definition load_json_file :: "json_file \<Rightarrow> histories" where
  "load_json_file file =
     (case file of
        Missing \<Rightarrow> Map.empty
      | Unreadable \<Rightarrow> Map.empty
      | Contents d \<Rightarrow> d)"

text \<open>
  Writing can fail with an \<open>IOError\<close>, before the file is opened for writing (it stays as
  it was) or after (it is left truncated). Which of these happens is the environment's
  choice, the parameter \<open>outcome\<close>.
\<close>

datatype write_outcome = Written | OpenFailed | WriteFailed

definition save_json_file :: "write_outcome \<Rightarrow> histories \<Rightarrow> json_file \<Rightarrow> bool \<times> json_file" where
  "save_json_file outcome data file =
     (case outcome of
        Written \<Rightarrow> (True, Contents data)
      | OpenFailed \<Rightarrow> (False, file)
      | WriteFailed \<Rightarrow> (False, Unreadable))"

definition load_history :: "string \<Rightarrow> json_file \<Rightarrow> (string \<rightharpoonup> string) list" where
  "load_history username file =
     (let histories = load_json_file file
      in case histories username of None \<Rightarrow> [] | Some entries \<Rightarrow> entries)"

text \<open>
  \<open>histories[username]\<close> cannot raise \<open>KeyError\<close> after \<open>setdefault\<close>; the \<open>None\<close> branches
  of the two inner lookups are never taken.
\<close>

definition append_history ::
  "write_outcome \<Rightarrow> string \<Rightarrow> calculation_entry \<Rightarrow> json_file \<Rightarrow> bool \<times> json_file" where
  "append_history outcome username entry file =
     (let histories = load_json_file file;
          histories = (case histories username of
                         None \<Rightarrow> histories(username \<mapsto> [])
                       | Some entries \<Rightarrow> histories);
          histories = (case histories username of
                         None \<Rightarrow> histories
                       | Some entries \<Rightarrow> histories(username \<mapsto> to_dict entry # entries));
          histories = (case histories username of
                         None \<Rightarrow> histories
                       | Some entries \<Rightarrow> histories(username \<mapsto> take MAX_HISTORY entries))
      in save_json_file outcome histories file)"

section \<open>Properties of \<open>safe_eval\<close>\<close>

text \<open>
  C5. Whenever evaluating the preprocessed expression raises \<open>ZeroDivisionError\<close>, as
  \<open>1/0\<close> does, \<open>safe_eval\<close> returns the pair of no value and the message
  \<open>Division by zero\<close>; it returns, no exception reaches the caller.
\<close>

theorem safe_eval_division_by_zero:
  assumes "eval (preprocess_expression expr) (safe_dict math_dir) Map.empty
             = Inl (ZeroDivisionError msg)"
  shows "safe_eval eval math_dir expr = Inr (None, Some ''Division by zero'')"
  using assms by (simp add: safe_eval_def)

theorem safe_eval_division_by_zero_witness:
  "safe_eval sample_eval sample_math_dir ''1/0''
     = Inr (None, Some ''Division by zero'')"
proof -
  have p: "preprocess_expression ''1/0'' = ''1/0''"
    by code_simp
  have h: "sample_eval (preprocess_expression ''1/0'')
             (safe_dict sample_math_dir) Map.empty
           = Inl (ZeroDivisionError ''division by zero'')"
    unfolding p by (simp add: sample_eval_def)
  show ?thesis
    using h by (rule safe_eval_division_by_zero [where eval = sample_eval])
qed

text \<open>
  C10. When the expression evaluates to a boolean, as the comparison \<open>2>1\<close> does,
  \<open>safe_eval\<close> returns that boolean as its value with no error message: \<open>bool\<close> is a
  subclass of \<open>int\<close>, so the \<open>isinstance\<close> test accepts it and the branch
  \<open>Result is not a number\<close> is not taken.
\<close>

theorem safe_eval_bool_is_numeric:
  assumes "eval (preprocess_expression expr) (safe_dict math_dir) Map.empty
             = Inr (PyBool b)"
  shows "safe_eval eval math_dir expr = Inr (Some (PyBool b), None)"
  using assms by (simp add: safe_eval_def format_result_def isinstance_int_float_def)

theorem safe_eval_bool_is_numeric_witness:
  "safe_eval sample_eval sample_math_dir ''2>1''
     = Inr (Some (PyBool True), None)"
proof -
  have p: "preprocess_expression ''2>1'' = ''2>1''"
    by code_simp
  have h: "sample_eval (preprocess_expression ''2>1'')
             (safe_dict sample_math_dir) Map.empty
           = Inr (PyBool True)"
    unfolding p by (simp add: sample_eval_def)
  show ?thesis
    using h by (rule safe_eval_bool_is_numeric [where eval = sample_eval])
qed

section \<open>Properties of the history store\<close>

lemma append_history_written:
  "fst (append_history outcome u e f) \<Longrightarrow> outcome = Written"
  by (cases outcome) (simp_all add: append_history_def save_json_file_def Let_def)

lemma load_history_append_written:
  "load_history u (snd (append_history Written u e f)) = to_dict e # take 99 (load_history u f)"
  by (simp add: append_history_def load_history_def save_json_file_def load_json_file_def
        MAX_HISTORY_def Let_def split: option.splits json_file.splits)

text \<open>
  C9. Whenever \<open>append_history\<close> reports that the file was saved, \<open>load_history\<close> for
  that user then returns the new entry first, followed by the previous entries in their
  previous order, cut so that at most 100 entries are kept.
\<close>

theorem append_history_head_cap:
  assumes "fst (append_history outcome username entry file)"
  shows "load_history username (snd (append_history outcome username entry file))
           = to_dict entry # take 99 (load_history username file)
       \<and> length (load_history username (snd (append_history outcome username entry file)))
           \<le> 100"
proof -
  have "outcome = Written"
    using assms by (rule append_history_written)
  then show ?thesis
    by (simp add: load_history_append_written)
qed

theorem append_history_head_cap_witness:
  "fst (append_history Written ''alice''
          \<lparr>entry_expr = ''1+1'', entry_result = ''2'', entry_timestamp = ''t1''\<rparr>
          (Contents [''alice'' \<mapsto> replicate 100 (to_dict
             \<lparr>entry_expr = ''0'', entry_result = ''0'', entry_timestamp = ''t0''\<rparr>)]))
   \<and> load_history ''alice'' (snd (append_history Written ''alice''
          \<lparr>entry_expr = ''1+1'', entry_result = ''2'', entry_timestamp = ''t1''\<rparr>
          (Contents [''alice'' \<mapsto> replicate 100 (to_dict
             \<lparr>entry_expr = ''0'', entry_result = ''0'', entry_timestamp = ''t0''\<rparr>)])))
     = to_dict \<lparr>entry_expr = ''1+1'', entry_result = ''2'', entry_timestamp = ''t1''\<rparr>
       # replicate 99 (to_dict
             \<lparr>entry_expr = ''0'', entry_result = ''0'', entry_timestamp = ''t0''\<rparr>)"
proof -
  let ?e = "\<lparr>entry_expr = ''1+1'', entry_result = ''2'', entry_timestamp = ''t1''\<rparr>"
  let ?f = "Contents [''alice'' \<mapsto> replicate 100 (to_dict
             \<lparr>entry_expr = ''0'', entry_result = ''0'', entry_timestamp = ''t0''\<rparr>)]"
  have h: "fst (append_history Written ''alice'' ?e ?f)"
    by (simp add: append_history_def save_json_file_def Let_def)
  have l: "load_history ''alice'' ?f = replicate 100 (to_dict
             \<lparr>entry_expr = ''0'', entry_result = ''0'', entry_timestamp = ''t0''\<rparr>)"
    by (simp add: load_history_def load_json_file_def)
  from append_history_head_cap [OF h] h l show ?thesis
    by simp
qed

section \<open>The namespace of the evaluated expression\<close>

lemma fold_upd_lookup:
  "fold (\<lambda>a d. d(a \<mapsto> f a)) xs d0 k = (if k \<in> set xs then Some (f k) else d0 k)"
  by (induction xs arbitrary: d0) auto

lemma safe_dict_lookup:
  "safe_dict md name =
     (if name \<in> set md \<and> \<not> startswith name ''_'' then Some (MathAttribute name)
      else if name = ''__builtins__'' then Some NoneObject
      else if name \<in> {''abs'', ''round'', ''pow'', ''min'', ''max''} then Some (BuiltinFunction name)
      else None)"
  unfolding safe_dict_def Let_def fold_upd_lookup by auto

lemma resolve_name_safe_dict:
  "resolve_name builtins_module (safe_dict md) Map.empty name = safe_dict md name"
proof -
  have "safe_dict md ''__builtins__'' = Some NoneObject"
    unfolding safe_dict_lookup by (simp add: startswith_def)
  then show ?thesis
    unfolding resolve_name_def by (simp split: option.splits)
qed






text \<open>
  The difference shows in the result: \<open>__builtins__\<close> evaluates, to \<open>None\<close>, and is
  reported as a result that is not a number, where an unknown identifier is reported as
  an error of the evaluation.
\<close>

lemma safe_eval_builtins_name:
  "safe_eval sample_eval sample_math_dir ''__builtins__''
     = Inr (None, Some ''Result is not a number'')"
proof -
  have "preprocess_expression ''__builtins__'' = ''__builtins__''"
    by code_simp
  then show ?thesis
    by (simp add: safe_eval_def sample_eval_def format_result_def isinstance_int_float_def)
qed

section \<open>The result of \<open>safe_eval\<close>\<close>

lemma int_of_float_exact:
  assumes "is_integer (Finite m e)" and "int_of_float (Finite m e) = Inr i"
  shows "if 0 \<le> e then i = m * 2 ^ nat e else i * 2 ^ nat (- e) = m"
proof (cases "0 \<le> e")
  case True
  with assms show ?thesis by (simp add: int_of_float_def)
next
  case False
  with assms have d: "m mod 2 ^ nat (- e) = 0"
    by (simp add: is_integer_def)
  have d1: "m div 2 ^ nat (- e) * 2 ^ nat (- e) = m"
    using div_mult_mod_eq [of m "2 ^ nat (- e)"] d by simp
  from d have "(- m) mod 2 ^ nat (- e) = 0"
    by (simp add: mod_0_imp_dvd)
  then have d2: "(- m) div 2 ^ nat (- e) * 2 ^ nat (- e) = - m"
    using div_mult_mod_eq [of "- m" "2 ^ nat (- e)"] by simp
  from False assms(2) have "i = (if 0 \<le> m then m div 2 ^ nat (- e) else - ((- m) div 2 ^ nat (- e)))"
    by (simp add: int_of_float_def)
  with d1 d2 False show ?thesis
    by (auto simp del: dvd_div_mult_self)
qed

lemma is_integer_int_of_float:
  "is_integer f \<Longrightarrow> \<exists>i. int_of_float f = Inr i"
  by (cases f) (simp_all add: is_integer_def int_of_float_def)

lemma safe_eval_some:
  assumes "safe_eval eval math_dir expr = Inr (Some v, msg)"
  shows "isinstance_int_float v \<and> msg = None"
proof (cases "eval (preprocess_expression expr) (safe_dict math_dir) Map.empty")
  case (Inl e)
  with assms show ?thesis
    by (cases e) (simp_all add: safe_eval_def)
next
  case (Inr r)
  show ?thesis
  proof (cases r)
    case (PyFloat f)
    show ?thesis
    proof (cases "is_integer f")
      case True
      then obtain i where "int_of_float f = Inr i"
        using is_integer_int_of_float by blast
      with assms Inr PyFloat True show ?thesis
        by (auto simp: safe_eval_def format_result_def isinstance_int_float_def)
    next
      case False
      with assms Inr PyFloat show ?thesis
        by (auto simp: safe_eval_def format_result_def isinstance_int_float_def)
    qed
  qed (use assms Inr in \<open>auto simp: safe_eval_def format_result_def isinstance_int_float_def\<close>)
qed

text \<open>
  C4. Whenever \<open>safe_eval\<close> returns a value, the value is an \<open>int\<close> or a \<open>float\<close> (or a
  \<open>bool\<close>, which is an \<open>int\<close>) and there is no message. A float result with zero
  fractional part is returned as the integer of the same value (the last conjunct says
  that the conversion is exact), as for \<open>sqrt(144)\<close> and \<open>sin(pi/2)\<close>; a float with a
  non-zero fractional part, an infinity or NaN is returned unchanged, and so is an
  integer.
\<close>

theorem safe_eval_numeric_result:
  "(safe_eval eval math_dir expr = Inr (Some v, msg) \<longrightarrow> isinstance_int_float v \<and> msg = None)
   \<and> (eval (preprocess_expression expr) (safe_dict math_dir) Map.empty = Inr (PyFloat f)
        \<and> is_integer f \<longrightarrow>
          (\<exists>i. int_of_float f = Inr i
             \<and> safe_eval eval math_dir expr = Inr (Some (PyInt i), None)))
   \<and> (eval (preprocess_expression expr) (safe_dict math_dir) Map.empty = Inr (PyFloat f)
        \<and> \<not> is_integer f \<longrightarrow>
          safe_eval eval math_dir expr = Inr (Some (PyFloat f), None))
   \<and> (eval (preprocess_expression expr) (safe_dict math_dir) Map.empty = Inr (PyInt n) \<longrightarrow>
          safe_eval eval math_dir expr = Inr (Some (PyInt n), None))
   \<and> (is_integer (Finite m e) \<and> int_of_float (Finite m e) = Inr i \<longrightarrow>
          (if 0 \<le> e then i = m * 2 ^ nat e else i * 2 ^ nat (- e) = m))"
proof (intro conjI impI)
  assume "safe_eval eval math_dir expr = Inr (Some v, msg)"
  then show "isinstance_int_float v" and "msg = None"
    using safe_eval_some by blast+
next
  assume a: "eval (preprocess_expression expr) (safe_dict math_dir) Map.empty = Inr (PyFloat f)
        \<and> is_integer f"
  then obtain i where "int_of_float f = Inr i"
    using is_integer_int_of_float by blast
  with a show "\<exists>i. int_of_float f = Inr i
             \<and> safe_eval eval math_dir expr = Inr (Some (PyInt i), None)"
    by (simp add: safe_eval_def format_result_def isinstance_int_float_def)
next
  assume "eval (preprocess_expression expr) (safe_dict math_dir) Map.empty = Inr (PyFloat f)
        \<and> \<not> is_integer f"
  then show "safe_eval eval math_dir expr = Inr (Some (PyFloat f), None)"
    by (simp add: safe_eval_def format_result_def isinstance_int_float_def)
next
  assume "eval (preprocess_expression expr) (safe_dict math_dir) Map.empty = Inr (PyInt n)"
  then show "safe_eval eval math_dir expr = Inr (Some (PyInt n), None)"
    by (simp add: safe_eval_def format_result_def isinstance_int_float_def)
next
  assume "is_integer (Finite m e) \<and> int_of_float (Finite m e) = Inr i"
  then show "if 0 \<le> e then i = m * 2 ^ nat e else i * 2 ^ nat (- e) = m"
    using int_of_float_exact by blast
qed

lemma safe_dict_sample_sqrt: "safe_dict sample_math_dir ''sqrt'' = Some (MathAttribute ''sqrt'')"
  by (simp add: safe_dict_def sample_math_dir_def startswith_def)

lemma safe_dict_sample_sin: "safe_dict sample_math_dir ''sin'' = Some (MathAttribute ''sin'')"
  by (simp add: safe_dict_def sample_math_dir_def startswith_def)

theorem safe_eval_numeric_result_witness:
  "safe_eval sample_eval sample_math_dir ''sqrt(144)'' = Inr (Some (PyInt 12), None)
   \<and> safe_eval sample_eval sample_math_dir ''sin(pi/2)'' = Inr (Some (PyInt 1), None)
   \<and> safe_eval sample_eval sample_math_dir ''50/100''
       = Inr (Some (PyFloat (Finite 1 (- 1))), None)"
proof -
  have p1: "preprocess_expression ''sqrt(144)'' = ''sqrt(144)''" by code_simp
  have p2: "preprocess_expression ''sin(pi/2)'' = ''sin(pi/2)''" by code_simp
  have p3: "preprocess_expression ''50/100'' = ''50/100''" by code_simp
  have h1: "sample_eval (preprocess_expression ''sqrt(144)'')
              (safe_dict sample_math_dir) Map.empty = Inr (PyFloat (Finite 12 0))
            \<and> is_integer (Finite 12 0)"
    unfolding p1 by (simp add: sample_eval_def resolve_name_safe_dict safe_dict_sample_sqrt is_integer_def)
  have h2: "sample_eval (preprocess_expression ''sin(pi/2)'')
              (safe_dict sample_math_dir) Map.empty = Inr (PyFloat (Finite 1 0))
            \<and> is_integer (Finite 1 0)"
    unfolding p2 by (simp add: sample_eval_def resolve_name_safe_dict safe_dict_sample_sin is_integer_def)
  have h3: "sample_eval (preprocess_expression ''50/100'')
              (safe_dict sample_math_dir) Map.empty = Inr (PyFloat (Finite 1 (- 1)))
            \<and> \<not> is_integer (Finite 1 (- 1))"
    unfolding p3 by (simp add: sample_eval_def is_integer_def)
  have i1: "int_of_float (Finite 12 0) = Inr 12" by (simp add: int_of_float_def)
  have i2: "int_of_float (Finite 1 0) = Inr 1" by (simp add: int_of_float_def)
  from safe_eval_numeric_result [of sample_eval sample_math_dir "''sqrt(144)''" _ _ "Finite 12 0"]
       h1 i1
  have r1: "safe_eval sample_eval sample_math_dir ''sqrt(144)'' = Inr (Some (PyInt 12), None)"
    by auto
  from safe_eval_numeric_result [of sample_eval sample_math_dir "''sin(pi/2)''" _ _ "Finite 1 0"]
       h2 i2
  have r2: "safe_eval sample_eval sample_math_dir ''sin(pi/2)'' = Inr (Some (PyInt 1), None)"
    by auto
  from safe_eval_numeric_result [of sample_eval sample_math_dir "''50/100''" _ _ "Finite 1 (- 1)"]
       h3
  have r3: "safe_eval sample_eval sample_math_dir ''50/100''
       = Inr (Some (PyFloat (Finite 1 (- 1))), None)"
    by auto
  from r1 r2 r3 show ?thesis by simp
qed

text \<open>
  The two handlers an unknown identifier can reach, for any interpreter: a \<open>NameError\<close>
  gives \<open>Unknown function or variable: \<close> followed by \<open>str(e)\<close>, any other
  \<open>Exception\<close> gives \<open>Error: \<close> followed by \<open>str(e)\<close>.
\<close>

lemma safe_eval_name_error:
  assumes "eval (preprocess_expression expr) (safe_dict math_dir) Map.empty = Inl (NameError msg)"
  shows "safe_eval eval math_dir expr = Inr (None, Some (''Unknown function or variable: '' @ msg))"
  using assms by (simp add: safe_eval_def)

lemma safe_eval_other_exception:
  assumes "eval (preprocess_expression expr) (safe_dict math_dir) Map.empty
             = Inl (OtherException msg)"
  shows "safe_eval eval math_dir expr = Inr (None, Some (''Error: '' @ msg))"
  using assms by (simp add: safe_eval_def)

lemma foo_unknown: "safe_dict sample_math_dir ''foo'' = None"
  by (simp add: safe_dict_def sample_math_dir_def startswith_def)

lemma pre_foo: "preprocess_expression ''foo(1)'' = ''foo(1)''"
  by code_simp

text \<open>
  C6 fails on the code. For an identifier that the namespace lacks, such as \<open>foo\<close> in
  \<open>foo(1)\<close>, the handler for \<open>NameError\<close> is not reached: \<open>safe_dict\<close> binds
  \<open>__builtins__\<close> to \<open>None\<close>, the lookup of \<open>foo\<close> in the builtins raises \<open>TypeError\<close>,
  and \<open>safe_eval\<close> answers with the message of its last handler, not with
  \<open>Unknown function or variable: foo\<close>.
\<close>

theorem safe_eval_unknown_identifier:
  "safe_eval sample_eval sample_math_dir ''foo(1)''
     = Inr (None, Some (''Error: '' @ [CHR 0x27] @ ''NoneType'' @ [CHR 0x27]
                          @ '' object is not subscriptable''))
   \<and> safe_eval sample_eval sample_math_dir ''foo(1)''
     \<noteq> Inr (None, Some ''Unknown function or variable: foo'')"
proof -
  have "sample_eval (preprocess_expression ''foo(1)'') (safe_dict sample_math_dir) Map.empty
          = Inl (OtherException ([CHR 0x27] @ ''NoneType'' @ [CHR 0x27]
                                   @ '' object is not subscriptable''))"
    unfolding pre_foo
    by (simp add: sample_eval_def resolve_name_safe_dict foo_unknown none_builtins_error_def)
  from safe_eval_other_exception [where eval = sample_eval, OF this]
  show ?thesis by simp
qed

section \<open>Properties of \<open>preprocess_expression\<close>\<close>

subsection \<open>Character classes\<close>

lemma digit_not_space: "is_digit c \<Longrightarrow> \<not> is_space c"
  by (auto simp: is_digit_def is_space_def)

lemma digit_not_lower: "is_digit c \<Longrightarrow> \<not> is_lower c"
  by (auto simp: is_digit_def is_lower_def)

lemma digit_not_special:
  "is_digit c \<Longrightarrow> c \<noteq> CHR ''%'' \<and> c \<noteq> CHR ''.'' \<and> c \<noteq> CHR ''('' \<and> c \<noteq> CHR '')''
     \<and> c \<noteq> CHR ''*'' \<and> c \<noteq> CHR ''/''"
  by (auto simp: is_digit_def)

lemma space_not_special:
  "is_space c \<Longrightarrow> c \<noteq> CHR ''%'' \<and> c \<noteq> CHR ''.'' \<and> c \<noteq> CHR ''('' \<and> c \<noteq> CHR '')''
     \<and> c \<noteq> CHR ''*'' \<and> c \<noteq> CHR ''/''"
  by (auto simp: is_space_def)

lemma lower_not_space: "is_lower c \<Longrightarrow> \<not> is_space c"
  by (auto simp: is_lower_def is_space_def)

lemma lower_not_special:
  "is_lower c \<Longrightarrow> c \<noteq> CHR ''%'' \<and> c \<noteq> CHR ''.'' \<and> c \<noteq> CHR ''('' \<and> c \<noteq> CHR '')''
     \<and> c \<noteq> CHR ''*'' \<and> c \<noteq> CHR ''/''"
  by (auto simp: is_lower_def)

lemma star_class [simp]:
  "\<not> is_digit CHR ''*''" "\<not> is_space CHR ''*''" "\<not> is_lower CHR ''*''"
  "\<not> is_lparen CHR ''*''" "\<not> is_rparen CHR ''*''"
  by (simp_all add: is_digit_def is_space_def is_lower_def is_lparen_def is_rparen_def)

text \<open>The two shapes of a literal.\<close>

lemma decimal_literal_iff:
  "decimal_literal g \<longleftrightarrow>
     (\<exists>ds. ds \<noteq> [] \<and> (\<forall>c\<in>set ds. is_digit c) \<and>
        (g = ds \<or> (\<exists>fs. fs \<noteq> [] \<and> (\<forall>c\<in>set fs. is_digit c) \<and> g = ds @ CHR ''.'' # fs)))"
proof
  assume d: "decimal_literal g"
  let ?ds = "takeWhile is_digit g"
  let ?r = "dropWhile is_digit g"
  have g: "g = ?ds @ ?r" by simp
  have ds: "?ds \<noteq> []" "\<forall>c\<in>set ?ds. is_digit c"
    using d by (auto simp: decimal_literal_def Let_def dest: set_takeWhileD)
  show "\<exists>ds. ds \<noteq> [] \<and> (\<forall>c\<in>set ds. is_digit c) \<and>
        (g = ds \<or> (\<exists>fs. fs \<noteq> [] \<and> (\<forall>c\<in>set fs. is_digit c) \<and> g = ds @ CHR ''.'' # fs))"
  proof (cases ?r)
    case Nil
    with g have "g = ?ds" by (metis append_Nil2)
    with ds show ?thesis by blast
  next
    case (Cons c fs)
    with d have "c = CHR ''.''" "fs \<noteq> []" "\<forall>c\<in>set fs. is_digit c"
      by (simp_all add: decimal_literal_def Let_def list_all_iff)
    moreover from g Cons have "g = ?ds @ c # fs" by simp
    ultimately show ?thesis using ds by blast
  qed
next
  assume "\<exists>ds. ds \<noteq> [] \<and> (\<forall>c\<in>set ds. is_digit c) \<and>
        (g = ds \<or> (\<exists>fs. fs \<noteq> [] \<and> (\<forall>c\<in>set fs. is_digit c) \<and> g = ds @ CHR ''.'' # fs))"
  then obtain ds where ds: "ds \<noteq> []" "\<forall>c\<in>set ds. is_digit c"
    and g: "g = ds \<or> (\<exists>fs. fs \<noteq> [] \<and> (\<forall>c\<in>set fs. is_digit c) \<and> g = ds @ CHR ''.'' # fs)"
    by blast
  from g show "decimal_literal g"
  proof
    assume e: "g = ds"
    have t: "takeWhile is_digit g = ds"
      using ds e by simp
    have r: "dropWhile is_digit g = []"
      using ds e by simp
    show ?thesis
      using ds unfolding decimal_literal_def Let_def t r by simp
  next
    assume "\<exists>fs. fs \<noteq> [] \<and> (\<forall>c\<in>set fs. is_digit c) \<and> g = ds @ CHR ''.'' # fs"
    then obtain fs where fs: "fs \<noteq> []" "\<forall>c\<in>set fs. is_digit c" "g = ds @ CHR ''.'' # fs"
      by blast
    have nd: "\<not> is_digit CHR ''.''" by (simp add: is_digit_def)
    have t: "takeWhile is_digit g = ds"
      using ds fs nd by (simp add: takeWhile_tail)
    have r: "dropWhile is_digit g = CHR ''.'' # fs"
      using ds fs nd by simp
    show ?thesis
      using ds fs unfolding decimal_literal_def Let_def t r by (simp add: list_all_iff)
  qed
qed


lemma after_literal:
  assumes "\<forall>c\<in>set ws. is_space c"
  shows "takeWhile is_digit (ws @ CHR ''%'' # r) = []"
    and "dropWhile is_digit (ws @ CHR ''%'' # r) = ws @ CHR ''%'' # r"
    and "dropWhile is_space (ws @ CHR ''%'' # r) = CHR ''%'' # r"
    and "\<exists>c t. ws @ CHR ''%'' # r = c # t \<and> c \<noteq> CHR ''.''"
proof -
  have p: "\<not> is_digit CHR ''%''" "\<not> is_space CHR ''%''"
    by (simp_all add: is_digit_def is_space_def)
  have h: "\<not> is_digit (hd (ws @ CHR ''%'' # r))"
    using assms p digit_not_space by (cases ws) auto
  show "takeWhile is_digit (ws @ CHR ''%'' # r) = []"
    using h by (simp add: takeWhile_eq_Nil_iff)
  show "dropWhile is_digit (ws @ CHR ''%'' # r) = ws @ CHR ''%'' # r"
    using h by (simp add: dropWhile_eq_self_iff)
  show "dropWhile is_space (ws @ CHR ''%'' # r) = CHR ''%'' # r"
    using assms p by simp
  show "\<exists>c t. ws @ CHR ''%'' # r = c # t \<and> c \<noteq> CHR ''.''"
    using assms space_not_special by (cases ws) auto
qed

lemma match_fraction_shape:
  "r = fst (match_fraction r) @ snd (match_fraction r)
   \<and> (fst (match_fraction r) = []
      \<or> (\<exists>fs. fs \<noteq> [] \<and> (\<forall>c\<in>set fs. is_digit c) \<and> fst (match_fraction r) = CHR ''.'' # fs))"
  by (cases r) (auto simp: match_fraction_def dest: set_takeWhileD)

lemma match_percent_complete:
  assumes g: "decimal_literal g" and ws: "\<forall>c\<in>set ws. is_space c"
  shows "match_percent (g @ ws @ CHR ''%'' # r) = Some (g, r)"
proof -
  let ?rest = "ws @ CHR ''%'' # r"
  from g obtain ds where ds: "ds \<noteq> []" "\<forall>c\<in>set ds. is_digit c"
    and sh: "g = ds \<or> (\<exists>fs. fs \<noteq> [] \<and> (\<forall>c\<in>set fs. is_digit c) \<and> g = ds @ CHR ''.'' # fs)"
    unfolding decimal_literal_iff by blast
  from after_literal(4) [OF ws, of r] obtain c t where ct: "?rest = c # t" "c \<noteq> CHR ''.''"
    by blast
  have nd: "\<not> is_digit CHR ''.''" by (simp add: is_digit_def)
  from sh show ?thesis
  proof
    assume e: "g = ds"
    have t: "takeWhile is_digit (g @ ?rest) = ds"
      using ds e after_literal(1) [OF ws, of r] by simp
    have d: "dropWhile is_digit (g @ ?rest) = c # t"
      using ds e after_literal(2) [OF ws, of r] ct by simp
    have f: "match_fraction (c # t) = ([], c # t)"
      using ct(2) by (simp add: match_fraction_def)
    have s: "dropWhile is_space (c # t) = CHR ''%'' # r"
      using after_literal(3) [OF ws, of r] ct by simp
    show ?thesis
      unfolding match_percent_def Let_def t d f using ds e s
      by (simp del: dropWhile.simps)
  next
    assume "\<exists>fs. fs \<noteq> [] \<and> (\<forall>c\<in>set fs. is_digit c) \<and> g = ds @ CHR ''.'' # fs"
    then obtain fs where fs: "fs \<noteq> []" "\<forall>c\<in>set fs. is_digit c" "g = ds @ CHR ''.'' # fs"
      by blast
    have t: "takeWhile is_digit (g @ ?rest) = ds"
      using ds fs nd by (simp add: takeWhile_tail)
    have d: "dropWhile is_digit (g @ ?rest) = CHR ''.'' # (fs @ ?rest)"
      using ds fs nd by simp
    have t2: "takeWhile is_digit (fs @ ?rest) = fs"
      using fs after_literal(1) [OF ws, of r] by simp
    have d2: "dropWhile is_digit (fs @ ?rest) = ?rest"
      using fs after_literal(2) [OF ws, of r] by simp
    have f: "match_fraction (CHR ''.'' # (fs @ ?rest)) = (CHR ''.'' # fs, ?rest)"
      unfolding match_fraction_def using fs(1) t2 d2 by (simp del: dropWhile.simps takeWhile.simps)
    have s: "dropWhile is_space ?rest = CHR ''%'' # r"
      by (rule after_literal(3) [OF ws])
    show ?thesis
      unfolding match_percent_def Let_def t d f using ds fs s
      by (simp del: dropWhile.simps takeWhile.simps)
  qed
qed

lemma match_percent_sound:
  assumes "match_percent s = Some m"
  shows "\<exists>ws. s = fst m @ ws @ CHR ''%'' # snd m \<and> (\<forall>c\<in>set ws. is_space c)
           \<and> decimal_literal (fst m)"
proof -
  let ?ds = "takeWhile is_digit s"
  let ?r1 = "dropWhile is_digit s"
  let ?fr = "match_fraction ?r1"
  have ds: "?ds \<noteq> []" "\<forall>c\<in>set ?ds. is_digit c"
    using assms by (auto simp: match_percent_def Let_def dest: set_takeWhileD split: if_splits)
  from assms ds(1) have m: "dropWhile is_space (snd ?fr) = CHR ''%'' # snd m" "fst m = ?ds @ fst ?fr"
    unfolding match_percent_def Let_def
    by (auto split: list.splits if_splits)
  have r1: "?r1 = fst ?fr @ snd ?fr"
    and sh: "fst ?fr = [] \<or> (\<exists>fs. fs \<noteq> [] \<and> (\<forall>c\<in>set fs. is_digit c) \<and> fst ?fr = CHR ''.'' # fs)"
    using match_fraction_shape [of ?r1] by blast+
  let ?ws = "takeWhile is_space (snd ?fr)"
  from m(1) have sf: "snd ?fr = ?ws @ CHR ''%'' # snd m"
    by (simp add: dropWhile_eq_Cons_conv)
  have "s = ?ds @ ?r1" by simp
  with r1 sf m(2) have 1: "s = fst m @ ?ws @ CHR ''%'' # snd m"
    by (metis append.assoc)
  have 2: "\<forall>c\<in>set ?ws. is_space c"
    by (auto dest: set_takeWhileD)
  have 3: "decimal_literal (fst m)"
    unfolding decimal_literal_iff m(2) using ds sh by auto
  from 1 2 3 show ?thesis by blast
qed


lemma decimal_literal_chars:
  assumes "decimal_literal g"
  shows "g \<noteq> []" and "is_digit (hd g)" and "is_digit (last g)"
    and "\<forall>c\<in>set g. is_digit c \<or> c = CHR ''.''"
proof -
  from assms obtain ds where ds: "ds \<noteq> []" "\<forall>c\<in>set ds. is_digit c"
    and sh: "g = ds \<or> (\<exists>fs. fs \<noteq> [] \<and> (\<forall>c\<in>set fs. is_digit c) \<and> g = ds @ CHR ''.'' # fs)"
    unfolding decimal_literal_iff by blast
  from ds sh show "g \<noteq> []" by auto
  from ds sh show "is_digit (hd g)" by (cases ds) auto
  from ds sh show "is_digit (last g)" by auto
  from ds sh show "\<forall>c\<in>set g. is_digit c \<or> c = CHR ''.''" by auto
qed

lemma starts_percent_Cons:
  "starts_percent (c # cs) = (if is_space c then starts_percent cs else c = CHR ''%'')"
  by (simp add: starts_percent_def)

lemma starts_percent_Nil [simp]: "\<not> starts_percent []"
  by (simp add: starts_percent_def)

lemma starts_percent_iff:
  "starts_percent s \<longleftrightarrow> (\<exists>ws r. s = ws @ CHR ''%'' # r \<and> (\<forall>c\<in>set ws. is_space c))"
proof
  assume "starts_percent s"
  then obtain r where "dropWhile is_space s = CHR ''%'' # r"
    by (auto simp: starts_percent_def split: list.splits)
  then have "s = takeWhile is_space s @ CHR ''%'' # r"
    by (simp add: dropWhile_eq_Cons_conv)
  moreover have "\<forall>c\<in>set (takeWhile is_space s). is_space c"
    by (auto dest: set_takeWhileD)
  ultimately show "\<exists>ws r. s = ws @ CHR ''%'' # r \<and> (\<forall>c\<in>set ws. is_space c)"
    by blast
next
  assume "\<exists>ws r. s = ws @ CHR ''%'' # r \<and> (\<forall>c\<in>set ws. is_space c)"
  then obtain ws r where s: "s = ws @ CHR ''%'' # r" and ws: "\<forall>c\<in>set ws. is_space c"
    by blast
  show "starts_percent s"
    unfolding starts_percent_def s after_literal(3) [OF ws] by simp
qed

lemma has_trigger_append_digit:
  "is_digit d \<Longrightarrow> starts_percent r \<Longrightarrow> has_trigger (a @ d # r)"
  by (induction a) auto

lemma match_percent_trigger:
  assumes "match_percent s = Some m"
  shows "has_trigger s"
proof -
  from match_percent_sound [OF assms] obtain ws
    where s: "s = fst m @ ws @ CHR ''%'' # snd m" and ws: "\<forall>c\<in>set ws. is_space c"
      and g: "decimal_literal (fst m)"
    by blast
  from decimal_literal_chars [OF g] have "fst m = butlast (fst m) @ [last (fst m)]"
    and d: "is_digit (last (fst m))"
    by simp_all
  then have "s = butlast (fst m) @ last (fst m) # (ws @ CHR ''%'' # snd m)"
    using s by (metis append.assoc append_Cons append_Nil)
  moreover have "starts_percent (ws @ CHR ''%'' # snd m)"
    unfolding starts_percent_iff using ws by blast
  ultimately show ?thesis
    using d has_trigger_append_digit by metis
qed

lemma match_percent_digit:
  assumes "is_digit c" and "starts_percent cs"
  shows "\<exists>r. match_percent (c # cs) = Some ([c], r)"
proof -
  from assms(2) obtain ws r where cs: "cs = ws @ CHR ''%'' # r" and ws: "\<forall>c\<in>set ws. is_space c"
    unfolding starts_percent_iff by blast
  have "decimal_literal [c]"
    using assms(1) by (simp add: decimal_literal_def)
  from match_percent_complete [OF this ws, of r] cs show ?thesis
    by simp
qed

lemma match_percent_head:
  assumes "match_percent (c # cs) = Some m"
  shows "is_digit c"
proof -
  from match_percent_sound [OF assms] obtain ws
    where s: "c # cs = fst m @ ws @ CHR ''%'' # snd m" and g: "decimal_literal (fst m)"
    by blast
  from decimal_literal_chars(1,2) [OF g] s show ?thesis
    by (cases "fst m") auto
qed

lemma sub_percent_no_trigger:
  "\<not> has_trigger s \<Longrightarrow> sub_percent s = s"
proof (induction s)
  case Nil
  then show ?case by simp
next
  case (Cons c cs)
  have n: "match_percent (c # cs) = None"
  proof (cases "match_percent (c # cs)")
    case None
    then show ?thesis .
  next
    case (Some m)
    then have "has_trigger (c # cs)"
      by (rule match_percent_trigger)
    with Cons.prems show ?thesis by simp
  qed
  from Cons.prems have "\<not> has_trigger cs"
    by simp
  then have "sub_percent cs = cs"
    by (rule Cons.IH)
  with n show ?case by simp
qed

lemma starts_percent_sub_percent:
  "starts_percent (sub_percent s) = starts_percent s"
proof (induction s rule: sub_percent.induct)
  case 1
  show ?case by simp
next
  case (2 c cs)
  show ?case
  proof (cases "match_percent (c # cs)")
    case None
    with 2 show ?thesis
      by (simp add: starts_percent_Cons)
  next
    case (Some m)
    then have "is_digit c"
      by (rule match_percent_head)
    then have "\<not> is_space c" "c \<noteq> CHR ''%''"
      using digit_not_space digit_not_special by blast+
    then have l: "\<not> starts_percent (c # cs)"
      by (simp add: starts_percent_Cons)
    have "\<not> starts_percent (CHR ''('' # fst m @ ''/100)'' @ sub_percent (snd m))"
      by (simp add: starts_percent_Cons is_space_def)
    with Some l show ?thesis
      by simp
  qed
qed

lemma starts_percent_literal:
  assumes "\<forall>c\<in>set g. is_digit c \<or> c = CHR ''.''"
  shows "\<not> starts_percent (g @ CHR ''/'' # t)"
proof (cases g)
  case Nil
  then show ?thesis by (simp add: starts_percent_Cons is_space_def)
next
  case (Cons x xs)
  with assms have "is_digit x \<or> x = CHR ''.''" by simp
  then have "\<not> is_space x \<and> x \<noteq> CHR ''%''"
  proof
    assume "is_digit x"
    then show ?thesis
      using digit_not_space [of x] digit_not_special [of x] by simp
  next
    assume "x = CHR ''.''"
    then show ?thesis by (simp add: is_space_def)
  qed
  with Cons show ?thesis by (simp add: starts_percent_Cons)
qed

lemma has_trigger_literal:
  "\<forall>c\<in>set g. is_digit c \<or> c = CHR ''.'' \<Longrightarrow> has_trigger (g @ CHR ''/'' # t) = has_trigger t"
proof (induction g)
  case Nil
  show ?case by (simp add: is_digit_def)
next
  case (Cons c g)
  from Cons.prems have p: "\<forall>c\<in>set g. is_digit c \<or> c = CHR ''.''"
    by simp
  have "\<not> starts_percent (g @ CHR ''/'' # t)"
    using p by (rule starts_percent_literal)
  moreover have "has_trigger (g @ CHR ''/'' # t) = has_trigger t"
    using p by (rule Cons.IH)
  ultimately show ?case by simp
qed

lemma has_trigger_replacement:
  assumes "\<forall>c\<in>set g. is_digit c \<or> c = CHR ''.''"
  shows "has_trigger (''('' @ g @ ''/100)'' @ t) = has_trigger t"
proof -
  have "has_trigger (''100)'' @ t) = has_trigger t"
    by (simp add: starts_percent_Cons is_digit_def is_space_def)
  then have "has_trigger (g @ CHR ''/'' # (''100)'' @ t)) = has_trigger t"
    using has_trigger_literal [OF assms] by simp
  then show ?thesis
    by (simp add: is_digit_def)
qed

lemma sub_percent_trigger_free:
  "\<not> has_trigger (sub_percent s)"
proof (induction s rule: sub_percent.induct)
  case 1
  show ?case by simp
next
  case (2 c cs)
  show ?case
  proof (cases "match_percent (c # cs)")
    case None
    with 2 have ih: "\<not> has_trigger (sub_percent cs)" by simp
    have "\<not> (is_digit c \<and> starts_percent cs)"
      using None match_percent_digit by fastforce
    with ih None show ?thesis
      by (simp add: starts_percent_sub_percent)
  next
    case (Some m)
    with 2 have ih: "\<not> has_trigger (sub_percent (snd m))" by simp
    from match_percent_sound [OF Some] have "decimal_literal (fst m)" by blast
    from has_trigger_replacement [OF decimal_literal_chars(4) [OF this]] ih Some
    show ?thesis by simp
  qed
qed


lemma sub_pair_id: "\<not> has_pair P Q s \<Longrightarrow> sub_pair P Q s = s"
  by (induction P Q s rule: sub_pair.induct) auto

lemma has_pair_Cons:
  "has_pair P Q (x # s) = ((s \<noteq> [] \<and> P x \<and> Q (hd s)) \<or> has_pair P Q s)"
  by (cases s) auto

lemma sub_pair_Nil_iff [simp]: "(sub_pair P Q s = []) = (s = [])"
  by (induction P Q s rule: sub_pair.induct) auto

lemma hd_sub_pair [simp]: "hd (sub_pair P Q s) = hd s"
  by (induction P Q s rule: sub_pair.induct) auto

lemma last_sub_pair [simp]: "last (sub_pair P Q s) = last s"
  by (induction P Q s rule: sub_pair.induct) auto

lemma has_pair_sub_pair_other:
  assumes "\<not> P' CHR ''*''" and "\<not> Q' CHR ''*''"
  shows "\<not> has_pair P' Q' s \<Longrightarrow> \<not> has_pair P' Q' (sub_pair P Q s)"
proof (induction P Q s rule: sub_pair.induct)
  case (1 P Q x y rest)
  from "1.prems" have n: "\<not> (P' x \<and> Q' y)" and r: "\<not> has_pair P' Q' (y # rest)"
    by simp_all
  show ?case
  proof (cases "P x \<and> Q y")
    case True
    from r have "\<not> has_pair P' Q' rest" and h: "\<not> (rest \<noteq> [] \<and> P' y \<and> Q' (hd rest))"
      by (simp_all add: has_pair_Cons)
    with "1.IH"(1) True have "\<not> has_pair P' Q' (sub_pair P Q rest)"
      by simp
    with h have "\<not> has_pair P' Q' (y # sub_pair P Q rest)"
      by (simp add: has_pair_Cons)
    with True assms show ?thesis
      by simp
  next
    case False
    with "1.IH"(2) r have "\<not> has_pair P' Q' (sub_pair P Q (y # rest))"
      by simp
    with n have "\<not> has_pair P' Q' (x # sub_pair P Q (y # rest))"
      by (simp add: has_pair_Cons)
    with False show ?thesis
      by auto
  qed
qed simp_all

lemma has_pair_sub_pair_self:
  assumes "\<And>c. Q c \<Longrightarrow> \<not> P c" and "\<not> P CHR ''*''" and "\<not> Q CHR ''*''"
  shows "\<not> has_pair P Q (sub_pair P Q s)"
  using assms
proof (induction P Q s rule: sub_pair.induct)
  case (1 P Q x y rest)
  show ?case
  proof (cases "P x \<and> Q y")
    case True
    then have "\<not> P y"
      using "1.prems"(1) by blast
    moreover have "\<not> has_pair P Q (sub_pair P Q rest)"
      using "1.IH"(1) True "1.prems" by blast
    ultimately have "\<not> has_pair P Q (y # sub_pair P Q rest)"
      by (simp add: has_pair_Cons)
    with True "1.prems"(2,3) show ?thesis
      by simp
  next
    case False
    have "\<not> has_pair P Q (sub_pair P Q (y # rest))"
      using "1.IH"(2) False "1.prems" by blast
    with False have "\<not> has_pair P Q (x # sub_pair P Q (y # rest))"
      by (simp add: has_pair_Cons)
    with False show ?thesis
      by auto
  qed
qed simp_all

lemma sub_pair_single:
  "\<not> (v \<noteq> [] \<and> P x \<and> Q (hd v)) \<Longrightarrow> sub_pair P Q (x # v) = x # sub_pair P Q v"
  by (cases v) auto

lemma sub_pair_append:
  "\<not> (u \<noteq> [] \<and> v \<noteq> [] \<and> P (last u) \<and> Q (hd v)) \<Longrightarrow>
     sub_pair P Q (u @ v) = sub_pair P Q u @ sub_pair P Q v"
proof (induction P Q u rule: sub_pair.induct)
  case (1 P Q x y rest)
  show ?case
  proof (cases "P x \<and> Q y")
    case True
    have "sub_pair P Q (rest @ v) = sub_pair P Q rest @ sub_pair P Q v"
    proof (cases "rest = []")
      case True
      then show ?thesis by simp
    next
      case False
      with "1.prems" have "\<not> (rest \<noteq> [] \<and> v \<noteq> [] \<and> P (last rest) \<and> Q (hd v))"
        by simp
      with "1.IH"(1) True show ?thesis by blast
    qed
    with True show ?thesis by simp
  next
    case False
    from "1.prems" have "\<not> (y # rest \<noteq> [] \<and> v \<noteq> [] \<and> P (last (y # rest)) \<and> Q (hd v))"
      by simp
    with "1.IH"(2) False have "sub_pair P Q ((y # rest) @ v) = sub_pair P Q (y # rest) @ sub_pair P Q v"
      by blast
    with False show ?thesis by auto
  qed
qed (simp_all add: sub_pair_single)

lemma starts_percent_sub_pair:
  assumes "\<And>c. P c \<Longrightarrow> \<not> is_space c \<and> c \<noteq> CHR ''%''"
  shows "starts_percent (sub_pair P Q s) = starts_percent s"
  using assms
proof (induction P Q s rule: sub_pair.induct)
  case (1 P Q x y rest)
  show ?case
  proof (cases "P x \<and> Q y")
    case True
    with "1.prems" have "\<not> is_space x \<and> x \<noteq> CHR ''%''" by blast
    with True show ?thesis by (simp add: starts_percent_Cons)
  next
    case False
    with "1.IH"(2) "1.prems" have "starts_percent (sub_pair P Q (y # rest)) = starts_percent (y # rest)"
      by blast
    with False show ?thesis by (auto simp: starts_percent_Cons)
  qed
qed simp_all

lemma has_trigger_sub_pair:
  assumes "\<And>c. P c \<Longrightarrow> \<not> is_space c \<and> c \<noteq> CHR ''%''"
  shows "\<not> has_trigger s \<Longrightarrow> \<not> has_trigger (sub_pair P Q s)"
  using assms
proof (induction P Q s rule: sub_pair.induct)
  case (1 P Q x y rest)
  note sp = starts_percent_sub_pair [of P, OF "1.prems"(2)]
  from "1.prems"(1) have a: "\<not> (is_digit x \<and> starts_percent (y # rest))"
    and b: "\<not> (is_digit y \<and> starts_percent rest)" and c: "\<not> has_trigger rest"
    by simp_all
  show ?case
  proof (cases "P x \<and> Q y")
    case True
    from "1.IH"(1) True c "1.prems"(2) have "\<not> has_trigger (sub_pair P Q rest)"
      by blast
    with b have "\<not> has_trigger (y # sub_pair P Q rest)"
      by (simp add: sp)
    with True show ?thesis
      by (simp add: starts_percent_Cons)
  next
    case False
    from "1.prems"(1) have "\<not> has_trigger (y # rest)" by simp
    with "1.IH"(2) False "1.prems"(2) have "\<not> has_trigger (sub_pair P Q (y # rest))"
      by blast
    with a False show ?thesis
      by (auto simp: sp)
  qed
qed simp_all


lemma trimmed_iff: "trimmed s = (s = [] \<or> (\<not> is_space (hd s) \<and> \<not> is_space (last s)))"
  by (cases s) (simp_all add: trimmed_def)

lemma trimmed_strip: "trimmed (strip s)"
proof -
  let ?t = "dropWhile is_space s"
  let ?u = "dropWhile is_space (rev ?t)"
  have s: "strip s = rev ?u" by (simp add: strip_def)
  show ?thesis
  proof (cases "?u = []")
    case True
    with s show ?thesis by (simp add: trimmed_iff)
  next
    case False
    then have hu: "\<not> is_space (hd ?u)"
      by (rule hd_dropWhile)
    from False have "hd ?u \<in> set ?u" by simp
    then have m: "hd ?u \<in> set (rev ?t)"
      by (rule set_dropWhileD)
    then have "?t \<noteq> []"
      by (metis empty_iff empty_set set_rev)
    then have ht: "\<not> is_space (hd ?t)"
      by (rule hd_dropWhile)
    from m hu have "last ?u = last (rev ?t)"
      by (rule dropWhile_last)
    also have "\<dots> = hd ?t"
      using \<open>?t \<noteq> []\<close> by (simp add: last_rev)
    finally have "last ?u = hd ?t" .
    with False hu ht show ?thesis
      unfolding trimmed_iff s by (simp add: hd_rev last_rev)
  qed
qed

lemma strip_trimmed: "trimmed s \<Longrightarrow> strip s = s"
proof (cases "s = []")
  case True
  then show ?thesis by (simp add: strip_def)
next
  case False
  assume "trimmed s"
  with False have h: "\<not> is_space (hd s)" and l: "\<not> is_space (last s)"
    by (simp_all add: trimmed_iff)
  from False h have 1: "dropWhile is_space s = s"
    by (simp add: dropWhile_eq_self_iff)
  from False l have 2: "dropWhile is_space (rev s) = rev s"
    by (simp add: dropWhile_eq_self_iff hd_rev)
  show ?thesis
    by (simp add: strip_def 1 2)
qed

lemma trimmed_sub_pair: "trimmed s \<Longrightarrow> trimmed (sub_pair P Q s)"
  by (simp add: trimmed_iff)

lemma sub_percent_Nil_iff [simp]: "(sub_percent s = []) = (s = [])"
  by (cases s) (simp_all split: option.splits)

lemma hd_sub_percent:
  "s \<noteq> [] \<Longrightarrow> hd (sub_percent s) = hd s \<or> hd (sub_percent s) = CHR ''(''"
  by (cases s) (simp_all split: option.splits)

lemma last_sub_percent:
  "s \<noteq> [] \<Longrightarrow> last (sub_percent s) = last s
      \<or> (last s = CHR ''%'' \<and> last (sub_percent s) = CHR '')'')"
proof (induction s rule: sub_percent.induct)
  case 1
  then show ?case by simp
next
  case (2 c cs)
  show ?case
  proof (cases "match_percent (c # cs)")
    case None
    show ?thesis
    proof (cases "cs = []")
      case True
      with None show ?thesis by simp
    next
      case False
      with "2.IH"(1) None have "last (sub_percent cs) = last cs
          \<or> (last cs = CHR ''%'' \<and> last (sub_percent cs) = CHR '')'')"
        by simp
      with None False show ?thesis by simp
    qed
  next
    case (Some m)
    from match_percent_sound [OF Some] obtain ws
      where s: "c # cs = fst m @ ws @ CHR ''%'' # snd m"
      by blast
    have o: "sub_percent (c # cs) = ''('' @ fst m @ ''/100)'' @ sub_percent (snd m)"
      using Some by simp
    show ?thesis
    proof (cases "snd m = []")
      case True
      with s have "last (c # cs) = CHR ''%''"
        by (metis append_assoc last_ConsL last_appendR list.distinct(1))
      moreover from True have "last (sub_percent (c # cs)) = CHR '')''"
        unfolding o by simp
      ultimately show ?thesis by blast
    next
      case False
      with s have l: "last (c # cs) = last (snd m)"
        by (metis append_assoc last_ConsR last_appendR list.distinct(1))
      from False have "last (sub_percent (c # cs)) = last (sub_percent (snd m))"
        unfolding o by simp
      moreover from "2.IH"(2) [OF Some False]
      have "last (sub_percent (snd m)) = last (snd m)
          \<or> (last (snd m) = CHR ''%'' \<and> last (sub_percent (snd m)) = CHR '')'')" .
      ultimately show ?thesis using l by metis
    qed
  qed
qed

lemma trimmed_sub_percent: "trimmed s \<Longrightarrow> trimmed (sub_percent s)"
proof (cases "s = []")
  case True
  then show ?thesis by (simp add: trimmed_iff)
next
  case False
  assume "trimmed s"
  with False have h: "\<not> is_space (hd s)" and l: "\<not> is_space (last s)"
    by (simp_all add: trimmed_iff)
  have p: "\<not> is_space CHR ''(''" "\<not> is_space CHR '')''"
    by (simp_all add: is_space_def)
  from hd_sub_percent [OF False] h p have "\<not> is_space (hd (sub_percent s))"
    by metis
  moreover from last_sub_percent [OF False] l p have "\<not> is_space (last (sub_percent s))"
    by metis
  ultimately show ?thesis
    by (simp add: trimmed_iff)
qed

lemma class_facts:
  "\<And>c. is_lower c \<Longrightarrow> \<not> is_digit c"
  "\<And>c. is_lparen c \<Longrightarrow> \<not> is_digit c"
  "\<And>c. is_digit c \<Longrightarrow> \<not> is_rparen c"
  "\<And>c. is_lparen c \<Longrightarrow> \<not> is_rparen c"
  "\<And>c. is_digit c \<Longrightarrow> \<not> is_space c \<and> c \<noteq> CHR ''%''"
  "\<And>c. is_rparen c \<Longrightarrow> \<not> is_space c \<and> c \<noteq> CHR ''%''"
  using digit_not_lower digit_not_special digit_not_space
  by (auto simp: is_lparen_def is_rparen_def is_space_def)

text \<open>What the output of the whole function looks like.\<close>

lemma preprocess_expression_normal:
  shows "trimmed (preprocess_expression s)"
    and "\<not> has_trigger (preprocess_expression s)"
    and "\<not> has_pair is_digit is_lower (preprocess_expression s)"
    and "\<not> has_pair is_digit is_lparen (preprocess_expression s)"
    and "\<not> has_pair is_rparen is_digit (preprocess_expression s)"
    and "\<not> has_pair is_rparen is_lparen (preprocess_expression s)"
proof -
  let ?s1 = "sub_percent (strip s)"
  let ?s2 = "sub_pair is_digit is_lower ?s1"
  let ?s3 = "sub_pair is_digit is_lparen ?s2"
  let ?s4 = "sub_pair is_rparen is_digit ?s3"
  have t: "preprocess_expression s = sub_pair is_rparen is_lparen ?s4"
    by (simp add: preprocess_expression_def)
  show "trimmed (preprocess_expression s)"
    unfolding t by (intro trimmed_sub_pair trimmed_sub_percent trimmed_strip)
  have "\<not> has_trigger ?s1"
    by (rule sub_percent_trigger_free)
  then show "\<not> has_trigger (preprocess_expression s)"
    unfolding t by (intro has_trigger_sub_pair class_facts)
  note other = has_pair_sub_pair_other [rotated 2]
  have "\<not> has_pair is_digit is_lower ?s2"
    by (rule has_pair_sub_pair_self) (simp_all add: class_facts)
  then have "\<not> has_pair is_digit is_lower ?s3"
    by (rule other) simp_all
  then have "\<not> has_pair is_digit is_lower ?s4"
    by (rule other) simp_all
  then show "\<not> has_pair is_digit is_lower (preprocess_expression s)"
    unfolding t by (rule other) simp_all
  have "\<not> has_pair is_digit is_lparen ?s3"
    by (rule has_pair_sub_pair_self) (simp_all add: class_facts)
  then have "\<not> has_pair is_digit is_lparen ?s4"
    by (rule other) simp_all
  then show "\<not> has_pair is_digit is_lparen (preprocess_expression s)"
    unfolding t by (rule other) simp_all
  have "\<not> has_pair is_rparen is_digit ?s4"
    by (rule has_pair_sub_pair_self) (simp_all add: class_facts)
  then show "\<not> has_pair is_rparen is_digit (preprocess_expression s)"
    unfolding t by (rule other) simp_all
  show "\<not> has_pair is_rparen is_lparen (preprocess_expression s)"
    unfolding t by (rule has_pair_sub_pair_self) (simp_all add: class_facts)
qed

lemma preprocess_expression_fixed:
  assumes "trimmed t" and "\<not> has_trigger t"
    and "\<not> has_pair is_digit is_lower t" and "\<not> has_pair is_digit is_lparen t"
    and "\<not> has_pair is_rparen is_digit t" and "\<not> has_pair is_rparen is_lparen t"
  shows "preprocess_expression t = t"
  using assms
  by (simp add: preprocess_expression_def strip_trimmed sub_percent_no_trigger sub_pair_id)

text \<open>
  C8. \<open>preprocess_expression\<close> is idempotent: its output has no whitespace at either
  end, no digit followed by optional whitespace and \<open>%\<close>, and none of the four
  adjacencies the multiplication rules rewrite, so a second application changes nothing.
\<close>

theorem preprocess_expression_idempotent:
  "preprocess_expression (preprocess_expression s) = preprocess_expression s"
  by (intro preprocess_expression_fixed preprocess_expression_normal)

subsection \<open>The percent rule\<close>

lemma match_percent_extend:
  assumes "match_percent t = Some m"
  shows "match_percent (t @ w) = Some (fst m, snd m @ w)"
proof -
  from match_percent_sound [OF assms] obtain ws
    where t: "t = fst m @ ws @ CHR ''%'' # snd m" and ws: "\<forall>c\<in>set ws. is_space c"
      and g: "decimal_literal (fst m)"
    by blast
  from t have "t @ w = fst m @ ws @ CHR ''%'' # (snd m @ w)"
    by (metis append_Cons append_assoc)
  with match_percent_complete [OF g ws, of "snd m @ w"] show ?thesis
    by simp
qed

lemma match_percent_crossing:
  assumes n: "match_percent t = None" and s: "match_percent (t @ w) = Some m"
  shows "\<exists>z g ws. w = z @ CHR ''%'' # snd m \<and> t @ z = g @ ws
           \<and> decimal_literal g \<and> (\<forall>c\<in>set ws. is_space c)"
proof -
  from match_percent_sound [OF s] obtain ws
    where e: "t @ w = fst m @ ws @ CHR ''%'' # snd m" and ws: "\<forall>c\<in>set ws. is_space c"
      and g: "decimal_literal (fst m)"
    by blast
  from e have "t @ w = (fst m @ ws) @ (CHR ''%'' # snd m)"
    by simp
  then obtain us where "(t = (fst m @ ws) @ us \<and> us @ w = CHR ''%'' # snd m)
      \<or> (t @ us = fst m @ ws \<and> w = us @ CHR ''%'' # snd m)"
    unfolding append_eq_append_conv2 by blast
  then show ?thesis
  proof
    assume a: "t = (fst m @ ws) @ us \<and> us @ w = CHR ''%'' # snd m"
    show ?thesis
    proof (cases us)
      case Nil
      with a have "t @ [] = fst m @ ws" "w = [] @ CHR ''%'' # snd m"
        by simp_all
      with g ws show ?thesis by blast
    next
      case (Cons x xs)
      with a have "t = fst m @ ws @ CHR ''%'' # xs"
        by simp
      with match_percent_complete [OF g ws, of xs] n show ?thesis
        by simp
    qed
  next
    assume "t @ us = fst m @ ws \<and> w = us @ CHR ''%'' # snd m"
    with g ws show ?thesis by blast
  qed
qed

text \<open>The scan of a prefix is independent of what follows, unless a literal straddles the cut.\<close>

lemma sub_percent_append:
  assumes "\<And>p t z g ws r. u = p @ t \<Longrightarrow> t \<noteq> [] \<Longrightarrow> w = z @ CHR ''%'' # r \<Longrightarrow> t @ z = g @ ws
             \<Longrightarrow> decimal_literal g \<Longrightarrow> \<forall>c\<in>set ws. is_space c \<Longrightarrow> False"
  shows "sub_percent (u @ w) = sub_percent u @ sub_percent w"
  using assms
proof (induction u rule: sub_percent.induct)
  case 1
  show ?case by simp
next
  case (2 c cs)
  note cross = "2.prems"
  show ?case
  proof (cases "match_percent (c # cs)")
    case None
    have n: "match_percent ((c # cs) @ w) = None"
    proof (cases "match_percent ((c # cs) @ w)")
      case None
      then show ?thesis .
    next
      case (Some m)
      from match_percent_crossing [OF \<open>match_percent (c # cs) = None\<close> Some]
      obtain z g ws where "w = z @ CHR ''%'' # snd m" "(c # cs) @ z = g @ ws"
        "decimal_literal g" "\<forall>c\<in>set ws. is_space c"
        by blast
      with cross [of "[]" "c # cs" z "snd m" g ws] show ?thesis
        by simp
    qed
    have "sub_percent (cs @ w) = sub_percent cs @ sub_percent w"
    proof (rule "2.IH"(1) [OF None])
      fix p t z g ws r
      assume "cs = p @ t" "t \<noteq> []" "w = z @ CHR ''%'' # r" "t @ z = g @ ws"
        "decimal_literal g" "\<forall>c\<in>set ws. is_space c"
      with cross [of "c # p" t z r g ws] show False
        by simp
    qed
    with None n show ?thesis
      by simp
  next
    case (Some m)
    from match_percent_extend [OF Some, of w]
    have e: "match_percent ((c # cs) @ w) = Some (fst m, snd m @ w)" .
    from match_percent_sound [OF Some] obtain ws0
      where t: "c # cs = fst m @ ws0 @ CHR ''%'' # snd m"
      by blast
    have "sub_percent (snd m @ w) = sub_percent (snd m) @ sub_percent w"
    proof (rule "2.IH"(2) [OF Some])
      fix p t z g ws r
      assume a: "snd m = p @ t" "t \<noteq> []" "w = z @ CHR ''%'' # r" "t @ z = g @ ws"
        "decimal_literal g" "\<forall>c\<in>set ws. is_space c"
      from t a(1) have "c # cs = (fst m @ ws0 @ CHR ''%'' # p) @ t"
        by simp
      from cross [OF this a(2-6)] show False .
    qed
    with Some e show ?thesis
      by simp
  qed
qed


lemma literal_chars_not_percent:
  assumes "decimal_literal g" and "\<forall>c\<in>set ws. is_space c" and "x \<in> set (g @ ws)"
  shows "is_digit x \<or> x = CHR ''.'' \<or> is_space x"
  using assms decimal_literal_chars(4) [OF assms(1)] by auto



lemma match_percent_nondigit: "\<not> is_digit c \<Longrightarrow> match_percent (c # cs) = None"
  using match_percent_head by (cases "match_percent (c # cs)") auto

lemma sub_percent_nondigit: "\<not> is_digit c \<Longrightarrow> sub_percent (c # cs) = c # sub_percent cs"
  by (simp add: match_percent_nondigit)


lemma sub_percent_barrier:
  assumes "\<not> is_digit c" and "\<not> is_space c" and "c \<noteq> CHR ''.''" and "c \<noteq> CHR ''%''"
  shows "sub_percent (u @ c # v) = sub_percent u @ c # sub_percent v"
proof -
  have "sub_percent (u @ c # v) = sub_percent u @ sub_percent (c # v)"
  proof (rule sub_percent_append)
    fix p t z g ws r
    assume a: "u = p @ t" "t \<noteq> []" "c # v = z @ CHR ''%'' # r" "t @ z = g @ ws"
      "decimal_literal g" "\<forall>c\<in>set ws. is_space c"
    show False
    proof (cases z)
      case Nil
      with a(3) assms(4) show False by simp
    next
      case (Cons x xs)
      with a(3) have "x = c" by simp
      with Cons a(4) have "c \<in> set (g @ ws)"
        by (metis in_set_conv_decomp)
      from literal_chars_not_percent [OF a(5,6) this] assms show False
        by simp
    qed
  qed
  moreover have "sub_percent (c # v) = c # sub_percent v"
    using assms(1) by (rule sub_percent_nondigit)
  ultimately show ?thesis
    by (simp only:)
qed

lemma sub_percent_literal:
  assumes "decimal_literal n" and "\<forall>c\<in>set ws. is_space c"
  shows "sub_percent (n @ ws @ CHR ''%'' # b) = ''('' @ n @ ''/100)'' @ sub_percent b"
proof -
  from decimal_literal_chars(1) [OF assms(1)] obtain c cs where "n @ ws @ CHR ''%'' # b = c # cs"
    by (cases n) auto
  with match_percent_complete [OF assms, of b] show ?thesis
    by simp
qed




subsection \<open>Implicit multiplication and percent literals\<close>

lemma sub_pair_insert:
  assumes "X \<noteq> []" and "Y \<noteq> []" and "P (last X)" and "Q (hd Y)"
    and "\<not> Q (last X)" and "\<not> P (hd Y)"
  shows "sub_pair P Q (X @ Y) = sub_pair P Q X @ CHR ''*'' # sub_pair P Q Y"
proof -
  from assms(1) obtain u x where X: "X = u @ [x]"
    by (metis append_butlast_last_id)
  from assms(2) obtain y v where Y: "Y = y # v"
    by (cases Y) auto
  from assms X Y have c: "P x" "Q y" "\<not> Q x" "\<not> P y"
    by simp_all
  have 1: "sub_pair P Q (u @ x # y # v) = sub_pair P Q u @ sub_pair P Q (x # y # v)"
    by (rule sub_pair_append) (use c in simp)
  have 2: "sub_pair P Q (u @ [x]) = sub_pair P Q u @ sub_pair P Q [x]"
    by (rule sub_pair_append) (use c in simp)
  have 3: "sub_pair P Q (y # v) = y # sub_pair P Q v"
    by (rule sub_pair_single) (use c in simp)
  show ?thesis
    unfolding X Y using 1 2 3 c by simp
qed

lemma sub_pair_star:
  assumes "\<not> P CHR ''*''" and "\<not> Q CHR ''*''"
  shows "sub_pair P Q (X @ CHR ''*'' # Y) = sub_pair P Q X @ CHR ''*'' # sub_pair P Q Y"
proof -
  have 1: "sub_pair P Q (X @ CHR ''*'' # Y) = sub_pair P Q X @ sub_pair P Q (CHR ''*'' # Y)"
    by (rule sub_pair_append) (use assms in simp)
  have 2: "sub_pair P Q (CHR ''*'' # Y) = CHR ''*'' # sub_pair P Q Y"
    by (rule sub_pair_single) (use assms in simp)
  show ?thesis
    unfolding 1 2 ..
qed

lemma strip_around:
  assumes "\<not> is_space d" and "\<not> is_space c"
  shows "strip (a @ d # c # b)
           = dropWhile is_space (a @ [d]) @ c # rev (dropWhile is_space (rev b))"
proof -
  let ?X = "dropWhile is_space (a @ [d])"
  have 1: "dropWhile is_space (a @ d # c # b) = ?X @ c # b"
    using dropWhile_append1 [of d "a @ [d]" is_space "c # b"] assms(1) by simp
  have 2: "dropWhile is_space (rev (c # b) @ rev ?X) = dropWhile is_space (rev (c # b)) @ rev ?X"
    by (rule dropWhile_append1 [of c]) (use assms(2) in simp_all)
  have 3: "dropWhile is_space (rev (c # b)) = dropWhile is_space (rev b) @ [c]"
    using dropWhile_append3 [of is_space c "rev b" "[]"] assms(2) by simp
  have "strip (a @ d # c # b) = rev (dropWhile is_space (rev (?X @ c # b)))"
    unfolding strip_def 1 ..
  also have "rev (?X @ c # b) = rev (c # b) @ rev ?X"
    by simp
  finally show ?thesis
    unfolding 2 3 by simp
qed

lemma lstrip_last:
  assumes "\<not> is_space d"
  shows "dropWhile is_space (a @ [d]) \<noteq> []" and "last (dropWhile is_space (a @ [d])) = d"
proof -
  show "dropWhile is_space (a @ [d]) \<noteq> []"
    using assms by auto
  have "last (dropWhile is_space (a @ [d])) = last (a @ [d])"
    by (rule dropWhile_last [of d]) (use assms in simp_all)
  then show "last (dropWhile is_space (a @ [d])) = d"
    by simp
qed

lemma substitutions_last:
  assumes "X \<noteq> []" and "last X \<noteq> CHR ''%''"
  shows "last (substitutions X) = last X"
  using last_sub_percent [OF assms(1)] assms(2) by (simp add: substitutions_def)


lemma lower_or_lparen_class:
  assumes "is_lower c \<or> is_lparen c"
  shows "\<not> is_digit c \<and> \<not> is_space c \<and> c \<noteq> CHR ''.'' \<and> c \<noteq> CHR ''%''"
  using assms
proof
  assume "is_lower c"
  then show ?thesis
    using digit_not_lower [of c] lower_not_space [of c] lower_not_special [of c] by blast
next
  assume "is_lparen c"
  then have "c = CHR ''(''" by (simp add: is_lparen_def)
  then show ?thesis by (simp add: is_digit_def is_space_def)
qed

lemma digit_class:
  assumes "is_digit d"
  shows "\<not> is_space d \<and> \<not> is_lower d \<and> \<not> is_lparen d \<and> d \<noteq> CHR ''%''"
  using digit_not_space [OF assms] digit_not_lower [OF assms] digit_not_special [OF assms]
  by (simp add: is_lparen_def)

lemma implicit_multiplication_split:
  assumes d: "is_digit d" and c: "is_lower c \<or> is_lparen c"
  shows "preprocess_expression (a @ d # c # b)
           = substitutions (dropWhile is_space (a @ [d])) @ CHR ''*''
               # substitutions (c # rev (dropWhile is_space (rev b)))"
proof -
  let ?X0 = "dropWhile is_space (a @ [d])"
  let ?y = "rev (dropWhile is_space (rev b))"
  let ?Y0 = "c # ?y"
  let ?X1 = "sub_percent ?X0"
  let ?Y1 = "sub_percent ?Y0"
  let ?X2 = "sub_pair is_digit is_lower ?X1"
  let ?Y2 = "sub_pair is_digit is_lower ?Y1"
  let ?X3 = "sub_pair is_digit is_lparen ?X2"
  let ?Y3 = "sub_pair is_digit is_lparen ?Y2"
  let ?X4 = "sub_pair is_rparen is_digit ?X3"
  let ?Y4 = "sub_pair is_rparen is_digit ?Y3"
  let ?X5 = "sub_pair is_rparen is_lparen ?X4"
  let ?Y5 = "sub_pair is_rparen is_lparen ?Y4"
  have cf: "\<not> is_digit c" "\<not> is_space c" "c \<noteq> CHR ''.''" "c \<noteq> CHR ''%''"
    using lower_or_lparen_class [OF c] by simp_all
  have df: "\<not> is_space d" "\<not> is_lower d" "\<not> is_lparen d" "d \<noteq> CHR ''%''"
    using digit_class [OF d] by simp_all
  have s0: "strip (a @ d # c # b) = ?X0 @ ?Y0"
    using df(1) cf(2) by (rule strip_around)
  have y1: "?Y1 = c # sub_percent ?y"
    using cf(1) by (rule sub_percent_nondigit)
  have "sub_percent (?X0 @ c # ?y) = ?X1 @ c # sub_percent ?y"
    using cf by (rule sub_percent_barrier)
  then have s1: "sub_percent (?X0 @ ?Y0) = ?X1 @ ?Y1"
    unfolding y1 .
  have x0: "?X0 \<noteq> []" "last ?X0 = d"
    using lstrip_last [OF df(1)] by simp_all
  have x1: "?X1 \<noteq> []" "last ?X1 = d"
    using last_sub_percent [OF x0(1)] x0 df(4) by simp_all
  have hy1: "?Y1 \<noteq> []" "hd ?Y1 = c"
    unfolding y1 by simp_all
  have x2: "?X2 \<noteq> []" "last ?X2 = d" and hy2: "?Y2 \<noteq> []" "hd ?Y2 = c"
    using x1 hy1 by simp_all
  have st3: "sub_pair is_digit is_lparen (X @ CHR ''*'' # Y)
      = sub_pair is_digit is_lparen X @ CHR ''*'' # sub_pair is_digit is_lparen Y" for X Y
    by (rule sub_pair_star) simp_all
  have st4: "sub_pair is_rparen is_digit (X @ CHR ''*'' # Y)
      = sub_pair is_rparen is_digit X @ CHR ''*'' # sub_pair is_rparen is_digit Y" for X Y
    by (rule sub_pair_star) simp_all
  have st5: "sub_pair is_rparen is_lparen (X @ CHR ''*'' # Y)
      = sub_pair is_rparen is_lparen X @ CHR ''*'' # sub_pair is_rparen is_lparen Y" for X Y
    by (rule sub_pair_star) simp_all
  have s3: "sub_pair is_digit is_lparen (sub_pair is_digit is_lower (?X1 @ ?Y1))
              = ?X3 @ CHR ''*'' # ?Y3"
  proof (cases "is_lower c")
    case True
    have "sub_pair is_digit is_lower (?X1 @ ?Y1) = ?X2 @ CHR ''*'' # ?Y2"
    proof (rule sub_pair_insert)
      show "?X1 \<noteq> []" by (rule x1(1))
      show "?Y1 \<noteq> []" by (rule hy1(1))
      show "is_digit (last ?X1)" unfolding x1(2) by (rule d)
      show "is_lower (hd ?Y1)" unfolding hy1(2) by (rule True)
      show "\<not> is_lower (last ?X1)" unfolding x1(2) by (rule df(2))
      show "\<not> is_digit (hd ?Y1)" unfolding hy1(2) by (rule cf(1))
    qed
    then show ?thesis
      by (simp only: st3)
  next
    case False
    with c have l: "is_lparen c" by simp
    have "\<not> (?X1 \<noteq> [] \<and> ?Y1 \<noteq> [] \<and> is_digit (last ?X1) \<and> is_lower (hd ?Y1))"
      unfolding hy1(2) using False by simp
    then have e2: "sub_pair is_digit is_lower (?X1 @ ?Y1) = ?X2 @ ?Y2"
      by (rule sub_pair_append)
    have e3: "sub_pair is_digit is_lparen (?X2 @ ?Y2) = ?X3 @ CHR ''*'' # ?Y3"
    proof (rule sub_pair_insert)
      show "?X2 \<noteq> []" by (rule x2(1))
      show "?Y2 \<noteq> []" by (rule hy2(1))
      show "is_digit (last ?X2)" unfolding x2(2) by (rule d)
      show "is_lparen (hd ?Y2)" unfolding hy2(2) by (rule l)
      show "\<not> is_lparen (last ?X2)" unfolding x2(2) by (rule df(3))
      show "\<not> is_digit (hd ?Y2)" unfolding hy2(2) by (rule cf(1))
    qed
    show ?thesis
      unfolding e2 e3 ..
  qed
  have s5: "sub_pair is_rparen is_lparen (sub_pair is_rparen is_digit (?X3 @ CHR ''*'' # ?Y3))
              = ?X5 @ CHR ''*'' # ?Y5"
    unfolding st4 st5 ..
  have "preprocess_expression (a @ d # c # b)
          = sub_pair is_rparen is_lparen (sub_pair is_rparen is_digit
              (sub_pair is_digit is_lparen (sub_pair is_digit is_lower
                 (sub_percent (strip (a @ d # c # b))))))"
    by (simp add: preprocess_expression_def)
  also have "\<dots> = ?X5 @ CHR ''*'' # ?Y5"
    unfolding s0 s1 s3 s5 ..
  finally show ?thesis
    by (simp only: substitutions_def)
qed

lemma substitutions_hd_nondigit:
  assumes "\<not> is_digit c"
  shows "hd (substitutions (c # y)) = c"
  unfolding substitutions_def sub_percent_nondigit [OF assms] by simp

text \<open>
  C3. Where a digit \<open>d\<close> is directly followed by a lower-case letter or an opening
  parenthesis \<open>c\<close>, the output has \<open>*\<close> between the two: it is the rewritten text up
  to \<open>d\<close>, which ends with \<open>d\<close>, then \<open>*\<close>, then the rewritten text from \<open>c\<close> on, which
  starts with \<open>c\<close> (only the outer whitespace is stripped first). So \<open>2pi\<close> becomes
  \<open>2*pi\<close> and \<open>3(4)\<close> becomes \<open>3*(4)\<close>, and \<open>safe_eval\<close> returns for them what the
  interpreter computes for \<open>2*pi\<close> and \<open>3*(4)\<close>.
\<close>

theorem implicit_multiplication:
  "(is_digit d \<and> (is_lower c \<or> is_lparen c) \<longrightarrow>
      preprocess_expression (a @ d # c # b)
        = substitutions (dropWhile is_space (a @ [d])) @ CHR ''*''
            # substitutions (c # rev (dropWhile is_space (rev b)))
      \<and> last (substitutions (dropWhile is_space (a @ [d]))) = d
      \<and> hd (substitutions (c # rev (dropWhile is_space (rev b)))) = c)
   \<and> preprocess_expression ''2pi'' = ''2*pi''
   \<and> preprocess_expression ''3(4)'' = ''3*(4)''
   \<and> (eval ''3*(4)'' (safe_dict math_dir) Map.empty = Inr (PyInt 12) \<longrightarrow>
        safe_eval eval math_dir ''3(4)'' = Inr (Some (PyInt 12), None))
   \<and> (eval ''2*pi'' (safe_dict math_dir) Map.empty = Inr (PyFloat f) \<and> \<not> is_integer f \<longrightarrow>
        safe_eval eval math_dir ''2pi'' = Inr (Some (PyFloat f), None))"
proof -
  have p1: "preprocess_expression ''2pi'' = ''2*pi''" by code_simp
  have p2: "preprocess_expression ''3(4)'' = ''3*(4)''" by code_simp
  have 1: "preprocess_expression (a @ d # c # b)
        = substitutions (dropWhile is_space (a @ [d])) @ CHR ''*''
            # substitutions (c # rev (dropWhile is_space (rev b)))
      \<and> last (substitutions (dropWhile is_space (a @ [d]))) = d
      \<and> hd (substitutions (c # rev (dropWhile is_space (rev b)))) = c"
    if h: "is_digit d \<and> (is_lower c \<or> is_lparen c)"
  proof -
    from h have d: "is_digit d" and c: "is_lower c \<or> is_lparen c"
      by simp_all
    have nd: "\<not> is_digit c"
      using lower_or_lparen_class [OF c] by simp
    have ns: "\<not> is_space d" "d \<noteq> CHR ''%''"
      using digit_class [OF d] by simp_all
    have "last (substitutions (dropWhile is_space (a @ [d]))) = d"
      using substitutions_last [of "dropWhile is_space (a @ [d])"] lstrip_last [OF ns(1), of a] ns(2)
      by simp
    with implicit_multiplication_split [OF d c] substitutions_hd_nondigit [OF nd]
    show ?thesis by simp
  qed
  have 2: "safe_eval eval math_dir ''3(4)'' = Inr (Some (PyInt 12), None)"
    if "eval ''3*(4)'' (safe_dict math_dir) Map.empty = Inr (PyInt 12)"
    using that by (simp add: safe_eval_def p2 format_result_def isinstance_int_float_def)
  have 3: "safe_eval eval math_dir ''2pi'' = Inr (Some (PyFloat f), None)"
    if "eval ''2*pi'' (safe_dict math_dir) Map.empty = Inr (PyFloat f) \<and> \<not> is_integer f"
    using that by (simp add: safe_eval_def p1 format_result_def isinstance_int_float_def)
  from 1 2 3 p1 p2 show ?thesis
    by blast
qed


lemma safe_dict_sample_pi: "safe_dict sample_math_dir ''pi'' = Some (MathAttribute ''pi'')"
  by (simp add: safe_dict_def sample_math_dir_def startswith_def)

theorem implicit_multiplication_witness:
  "is_digit CHR ''2'' \<and> is_lower CHR ''p''
   \<and> preprocess_expression '' 12pi '' = ''12*pi''
   \<and> safe_eval sample_eval sample_math_dir ''3(4)'' = Inr (Some (PyInt 12), None)
   \<and> safe_eval sample_eval sample_math_dir ''2pi''
       = Inr (Some (PyFloat (Finite 7074237752028440 (- 50))), None)
   \<and> (6283185306 :: int) * 2 ^ 50 < 7074237752028440 * 10 ^ 9
   \<and> (7074237752028440 :: int) * 10 ^ 9 < 6283185308 * 2 ^ 50"
proof -
  have d: "is_digit CHR ''2''" by (simp add: is_digit_def)
  have c: "is_lower CHR ''p''" by (simp add: is_lower_def)
  have x: "substitutions (dropWhile is_space ('' 1'' @ [CHR ''2''])) = ''12''" by code_simp
  have y: "substitutions (CHR ''p'' # rev (dropWhile is_space (rev ''i ''))) = ''pi''" by code_simp
  have e1: "sample_eval ''3*(4)'' (safe_dict sample_math_dir) Map.empty = Inr (PyInt 12)"
    by (simp add: sample_eval_def)
  have e2: "sample_eval ''2*pi'' (safe_dict sample_math_dir) Map.empty
              = Inr (PyFloat (Finite 7074237752028440 (- 50)))"
    by (simp add: sample_eval_def resolve_name_safe_dict safe_dict_sample_pi)
  have ni: "\<not> is_integer (Finite 7074237752028440 (- 50))"
    by (simp add: is_integer_def)
  note t = implicit_multiplication [where d = "CHR ''2''" and c = "CHR ''p''" and a = "'' 1''"
      and b = "''i ''" and eval = sample_eval and math_dir = sample_math_dir
      and f = "Finite 7074237752028440 (- 50)"]
  from t d c x y have 1: "preprocess_expression '' 12pi '' = ''12*pi''"
    by simp
  from t e1 have 2: "safe_eval sample_eval sample_math_dir ''3(4)''
      = Inr (Some (PyInt 12), None)"
    by blast
  from t e2 ni have 3: "safe_eval sample_eval sample_math_dir ''2pi''
       = Inr (Some (PyFloat (Finite 7074237752028440 (- 50))), None)"
    by blast
  have 4: "(6283185306 :: int) * 2 ^ 50 < 7074237752028440 * 10 ^ 9"
    "(7074237752028440 :: int) * 10 ^ 9 < 6283185308 * 2 ^ 50"
    by simp_all
  from d c 1 2 3 4 show ?thesis by blast
qed

lemma has_pair_second: "has_pair P Q s \<Longrightarrow> \<exists>y\<in>set (tl s). Q y"
  by (induction P Q s rule: has_pair.induct) auto

lemma has_pair_first: "has_pair P Q s \<Longrightarrow> \<exists>x\<in>set (butlast s). P x"
  by (induction P Q s rule: has_pair.induct) auto

lemma has_pair_members: "has_pair P Q s \<Longrightarrow> (\<exists>x\<in>set s. P x) \<and> (\<exists>y\<in>set s. Q y)"
  by (induction P Q s rule: has_pair.induct) auto

lemma literal_plain:
  assumes "decimal_literal n" and "x \<in> set n"
  shows "\<not> is_lower x \<and> \<not> is_lparen x \<and> \<not> is_rparen x \<and> \<not> is_space x"
proof -
  from decimal_literal_chars(4) [OF assms(1)] assms(2) have "is_digit x \<or> x = CHR ''.''"
    by blast
  then show ?thesis
  proof
    assume "is_digit x"
    then show ?thesis
      using digit_not_lower [of x] digit_not_space [of x] digit_not_special [of x]
      by (simp add: is_lparen_def is_rparen_def)
  next
    assume "x = CHR ''.''"
    then show ?thesis
      by (simp add: is_lower_def is_lparen_def is_rparen_def is_space_def)
  qed
qed

lemma preprocess_quotient:
  assumes n: "decimal_literal n"
  shows "preprocess_expression (n @ ''/100'') = n @ ''/100''"
proof (rule preprocess_expression_fixed)
  let ?t = "n @ ''/100''"
  from decimal_literal_chars [OF n] have ne: "n \<noteq> []" and hd: "is_digit (hd n)"
    by simp_all
  have plain: "\<not> is_lower x \<and> \<not> is_lparen x \<and> \<not> is_rparen x" if "x \<in> set ?t" for x
  proof (cases "x \<in> set n")
    case True
    with literal_plain [OF n] show ?thesis by blast
  next
    case False
    with that have "x \<in> set ''/100''" by simp
    then show ?thesis
      by (auto simp: is_lower_def is_lparen_def is_rparen_def)
  qed
  have "\<not> is_space (hd ?t)"
    using ne hd digit_not_space by simp
  moreover have "\<not> is_space (last ?t)"
    by (simp add: is_space_def)
  ultimately show "trimmed ?t"
    by (simp add: trimmed_iff)
  have "has_trigger (n @ CHR ''/'' # ''100'') = has_trigger ''100''"
    by (rule has_trigger_literal) (rule decimal_literal_chars(4) [OF n])
  then show "\<not> has_trigger ?t"
    by (simp add: starts_percent_Cons is_digit_def is_space_def)
  show "\<not> has_pair is_digit is_lower ?t"
    using has_pair_members [of is_digit is_lower ?t] plain by blast
  show "\<not> has_pair is_digit is_lparen ?t"
    using has_pair_members [of is_digit is_lparen ?t] plain by blast
  show "\<not> has_pair is_rparen is_digit ?t"
    using has_pair_members [of is_rparen is_digit ?t] plain by blast
  show "\<not> has_pair is_rparen is_lparen ?t"
    using has_pair_members [of is_rparen is_lparen ?t] plain by blast
qed

lemma preprocess_percent_literal:
  assumes n: "decimal_literal n"
  shows "preprocess_expression (n @ ''%'') = ''('' @ n @ ''/100)''"
proof -
  let ?r = "''('' @ n @ ''/100)''"
  from decimal_literal_chars [OF n] have ne: "n \<noteq> []" and hd: "is_digit (hd n)"
    by simp_all
  have "\<not> is_space (hd (n @ ''%''))"
    using ne hd digit_not_space by simp
  moreover have "\<not> is_space (last (n @ ''%''))"
    by (simp add: is_space_def)
  ultimately have "trimmed (n @ ''%'')"
    by (simp add: trimmed_iff)
  then have 1: "strip (n @ ''%'') = n @ ''%''"
    by (rule strip_trimmed)
  have 2: "sub_percent (n @ ''%'') = ?r"
    using sub_percent_literal [OF n, of "[]" "[]"] by simp
  have tl: "\<not> is_lower x \<and> \<not> is_lparen x" if "x \<in> set (tl ?r)" for x
  proof (cases "x \<in> set n")
    case True
    with literal_plain [OF n] show ?thesis by blast
  next
    case False
    with that have "x \<in> set ''/100)''" by simp
    then show ?thesis
      by (auto simp: is_lower_def is_lparen_def)
  qed
  have bl: "\<not> is_rparen x" if "x \<in> set (butlast ?r)" for x
  proof (cases "x \<in> set n")
    case True
    with literal_plain [OF n] show ?thesis by blast
  next
    case False
    have "butlast ?r = ''('' @ n @ ''/100''"
      by (simp add: butlast_append)
    with that False have "x \<in> set ''(/100''" by simp
    then show ?thesis
      by (auto simp: is_rparen_def)
  qed
  have 3: "\<not> has_pair is_digit is_lower ?r"
    using has_pair_second [of is_digit is_lower ?r] tl by blast
  have 4: "\<not> has_pair is_digit is_lparen ?r"
    using has_pair_second [of is_digit is_lparen ?r] tl by blast
  have 5: "\<not> has_pair is_rparen is_digit ?r"
    using has_pair_first [of is_rparen is_digit ?r] bl by blast
  have 6: "\<not> has_pair is_rparen is_lparen ?r"
    using has_pair_first [of is_rparen is_lparen ?r] bl by blast
  show ?thesis
    unfolding preprocess_expression_def Let_def 1 2
    by (simp only: sub_pair_id [OF 3] sub_pair_id [OF 4] sub_pair_id [OF 5] sub_pair_id [OF 6])
qed


text \<open>
  Number texts outside the shape \<open>decimal_literal\<close> are not rewritten as a whole: of
  \<open>.5%\<close> only the digits after the point are taken, \<open>5.%\<close> is left as it is, and in
  \<open>1e5%\<close> the exponent is taken alone and the mantissa is multiplied with \<open>e\<close>.
\<close>

lemma percent_outside_literal_shape:
  "\<not> decimal_literal ''.5'' \<and> preprocess_expression ''.5%'' = ''.(5/100)''
   \<and> \<not> decimal_literal ''5.'' \<and> preprocess_expression ''5.%'' = ''5.%''
   \<and> \<not> decimal_literal ''1e5'' \<and> preprocess_expression ''1e5%'' = ''1*e(5/100)''"
  by code_simp

lemma safe_eval_cong:
  assumes "preprocess_expression x = x'" and "preprocess_expression y = y'"
    and "eval x' (safe_dict math_dir) Map.empty = eval y' (safe_dict math_dir) Map.empty"
  shows "safe_eval eval math_dir x = safe_eval eval math_dir y"
  using assms by (simp add: safe_eval_def)

text \<open>
  C2, as the code has it. For a literal \<open>n\<close> of the shape the percent rule matches
  (digits, optionally a decimal point and further digits),
  \<open>n%\<close> is rewritten to \<open>(n/100)\<close> and \<open>n/100\<close> is left as it is; so, for an
  interpreter that gives a parenthesised expression the value of the expression,
  \<open>safe_eval\<close> returns the same for \<open>n%\<close> (also when it is normalised beforehand) as
  for \<open>n/100\<close>. With the interpreter's values for \<open>(50/100)\<close> and \<open>(50/100) * 200\<close>,
  \<open>50%\<close> gives the float 0.5 and \<open>50% * 200\<close> the integer 100.
\<close>

theorem percent_literal_evaluation:
  "(decimal_literal n \<longrightarrow>
      preprocess_expression (n @ ''%'') = ''('' @ n @ ''/100)''
      \<and> preprocess_expression (n @ ''/100'') = n @ ''/100'')
   \<and> (decimal_literal n
        \<and> eval (''('' @ n @ ''/100)'') (safe_dict math_dir) Map.empty
            = eval (n @ ''/100'') (safe_dict math_dir) Map.empty \<longrightarrow>
        safe_eval eval math_dir (n @ ''%'') = safe_eval eval math_dir (n @ ''/100'')
        \<and> safe_eval eval math_dir (preprocess_expression (n @ ''%''))
            = safe_eval eval math_dir (n @ ''/100''))
   \<and> (eval ''(50/100)'' (safe_dict math_dir) Map.empty = Inr (PyFloat (Finite 1 (- 1))) \<longrightarrow>
        safe_eval eval math_dir ''50%'' = Inr (Some (PyFloat (Finite 1 (- 1))), None))
   \<and> (eval ''(50/100) * 200'' (safe_dict math_dir) Map.empty = Inr (PyFloat (Finite 100 0)) \<longrightarrow>
        safe_eval eval math_dir ''50% * 200'' = Inr (Some (PyInt 100), None))"
proof -
  have 1: "preprocess_expression (n @ ''%'') = ''('' @ n @ ''/100)''
      \<and> preprocess_expression (n @ ''/100'') = n @ ''/100''"
    if "decimal_literal n"
    using preprocess_percent_literal [OF that] preprocess_quotient [OF that] by simp
  have 2: "safe_eval eval math_dir (n @ ''%'') = safe_eval eval math_dir (n @ ''/100'')
        \<and> safe_eval eval math_dir (preprocess_expression (n @ ''%''))
            = safe_eval eval math_dir (n @ ''/100'')"
    if h: "decimal_literal n
        \<and> eval (''('' @ n @ ''/100)'') (safe_dict math_dir) Map.empty
            = eval (n @ ''/100'') (safe_dict math_dir) Map.empty"
  proof -
    from h have n: "decimal_literal n" by simp
    have a: "preprocess_expression (n @ ''%'') = ''('' @ n @ ''/100)''"
      by (rule preprocess_percent_literal [OF n])
    have b: "preprocess_expression (n @ ''/100'') = n @ ''/100''"
      by (rule preprocess_quotient [OF n])
    have c: "preprocess_expression (preprocess_expression (n @ ''%'')) = ''('' @ n @ ''/100)''"
      using preprocess_expression_fixed [OF preprocess_expression_normal, of "n @ ''%''"]
      unfolding a .
    from h have e: "eval (''('' @ n @ ''/100)'') (safe_dict math_dir) Map.empty
            = eval (n @ ''/100'') (safe_dict math_dir) Map.empty"
      by simp
    have "safe_eval eval math_dir (n @ ''%'') = safe_eval eval math_dir (n @ ''/100'')"
      using a b e by (rule safe_eval_cong)
    moreover have "safe_eval eval math_dir (preprocess_expression (n @ ''%''))
            = safe_eval eval math_dir (n @ ''/100'')"
      using c b e by (rule safe_eval_cong)
    ultimately show ?thesis ..
  qed
  have p1: "preprocess_expression ''50%'' = ''(50/100)''" by code_simp
  have p2: "preprocess_expression ''50% * 200'' = ''(50/100) * 200''" by code_simp
  have 3: "safe_eval eval math_dir ''50%'' = Inr (Some (PyFloat (Finite 1 (- 1))), None)"
    if "eval ''(50/100)'' (safe_dict math_dir) Map.empty = Inr (PyFloat (Finite 1 (- 1)))"
    using that
    by (simp add: safe_eval_def p1 format_result_def isinstance_int_float_def is_integer_def)
  have 4: "safe_eval eval math_dir ''50% * 200'' = Inr (Some (PyInt 100), None)"
    if "eval ''(50/100) * 200'' (safe_dict math_dir) Map.empty = Inr (PyFloat (Finite 100 0))"
    using that
    by (simp add: safe_eval_def p2 format_result_def isinstance_int_float_def is_integer_def
          int_of_float_def)
  from 1 2 3 4 show ?thesis
    by blast
qed

theorem percent_literal_evaluation_witness:
  "decimal_literal ''50''
   \<and> preprocess_expression ''50%'' = ''(50/100)''
   \<and> safe_eval sample_eval sample_math_dir ''50%''
       = safe_eval sample_eval sample_math_dir ''50/100''
   \<and> safe_eval sample_eval sample_math_dir ''50%''
       = Inr (Some (PyFloat (Finite 1 (- 1))), None)
   \<and> safe_eval sample_eval sample_math_dir ''50% * 200''
       = Inr (Some (PyInt 100), None)"
proof -
  have n: "decimal_literal ''50''" by code_simp
  have e: "sample_eval (''('' @ ''50'' @ ''/100)'') (safe_dict sample_math_dir) Map.empty
            = sample_eval (''50'' @ ''/100'') (safe_dict sample_math_dir) Map.empty"
    by (simp add: sample_eval_def)
  have e1: "sample_eval ''(50/100)'' (safe_dict sample_math_dir) Map.empty
            = Inr (PyFloat (Finite 1 (- 1)))"
    by (simp add: sample_eval_def)
  have e2: "sample_eval ''(50/100) * 200'' (safe_dict sample_math_dir) Map.empty
            = Inr (PyFloat (Finite 100 0))"
    by (simp add: sample_eval_def)
  note t = percent_literal_evaluation [where n = "''50''" and eval = sample_eval
      and math_dir = sample_math_dir]
  from t n have 1: "preprocess_expression ''50%'' = ''(50/100)''"
    by simp
  from t n e have 2: "safe_eval sample_eval sample_math_dir ''50%''
       = safe_eval sample_eval sample_math_dir ''50/100''"
    by simp
  from t e1 have 3: "safe_eval sample_eval sample_math_dir ''50%''
       = Inr (Some (PyFloat (Finite 1 (- 1))), None)"
    by blast
  from t e2 have 4: "safe_eval sample_eval sample_math_dir ''50% * 200''
       = Inr (Some (PyInt 100), None)"
    by blast
  from n 1 2 3 4 show ?thesis by blast
qed

text \<open>
  C2 as stated fails for a decimal literal outside that shape: \<open>.5%\<close> is rewritten to
  \<open>.(5/100)\<close>, which is a syntax error, while \<open>.5/100\<close> evaluates to the float 0.005
  (\<open>5764607523034235 * 2 ^ -60\<close>).
\<close>

theorem percent_literal_counterexample:
  "preprocess_expression ''.5%'' = ''.(5/100)''
   \<and> safe_eval sample_eval sample_math_dir ''.5%'' = Inr (None, Some ''Invalid syntax'')
   \<and> safe_eval sample_eval sample_math_dir ''.5/100''
       = Inr (Some (PyFloat (Finite 5764607523034235 (- 60))), None)"
proof -
  have p1: "preprocess_expression ''.5%'' = ''.(5/100)''" by code_simp
  have p2: "preprocess_expression ''.5/100'' = ''.5/100''" by code_simp
  have 1: "safe_eval sample_eval sample_math_dir ''.5%'' = Inr (None, Some ''Invalid syntax'')"
    by (simp add: safe_eval_def p1 sample_eval_def)
  have 2: "safe_eval sample_eval sample_math_dir ''.5/100''
       = Inr (Some (PyFloat (Finite 5764607523034235 (- 60))), None)"
    by (simp add: safe_eval_def p2 sample_eval_def format_result_def isinstance_int_float_def
          is_integer_def)
  from p1 1 2 show ?thesis by simp
qed

end
